theory Spec2Isabelle
  imports Main
begin

section \<open>Python strings\<close>

text \<open>
  A Python \<open>str\<close> is a sequence of code points; it is modelled as a \<open>string\<close> in which
  every \<open>char\<close> stands for one code point below 256, so that \<open>length\<close> is Python's
  \<open>len\<close> and \<open>take\<close> is a slice \<open>s[:n]\<close>. The string methods below follow Python on
  that range.
\<close>

fun startswith :: "string \<Rightarrow> string \<Rightarrow> bool" where
  "startswith s [] = True"
| "startswith [] (p # ps) = False"
| "startswith (c # cs) (p # ps) = (c = p \<and> startswith cs ps)"

text \<open>\<open>needle in hay\<close> on two strings.\<close>

fun str_in :: "string \<Rightarrow> string \<Rightarrow> bool" where
  "str_in needle [] = (needle = [])"
| "str_in needle (c # cs) = (startswith (c # cs) needle \<or> str_in needle cs)"

text \<open>\<open>str.isspace\<close> on one code point below 256.\<close>

definition isspace :: "char \<Rightarrow> bool" where
  "isspace c = (let n = (of_char c :: nat) in
     (9 \<le> n \<and> n \<le> 13) \<or> (28 \<le> n \<and> n \<le> 32) \<or> n = 133 \<or> n = 160)"

text \<open>\<open>str.lower\<close>: the letters A-Z and the capital letters of Latin-1 move up by 32.\<close>

definition lower_char :: "char \<Rightarrow> char" where
  "lower_char c = (let n = (of_char c :: nat) in
     if (65 \<le> n \<and> n \<le> 90) \<or> (192 \<le> n \<and> n \<le> 222 \<and> n \<noteq> 215)
     then char_of (n + 32) else c)"

definition lower :: "string \<Rightarrow> string" where
  "lower s = map lower_char s"

text \<open>\<open>str.strip()\<close> and \<open>str.split()\<close> with no argument: runs of whitespace separate
  the words and no word is empty.\<close>

definition strip :: "string \<Rightarrow> string" where
  "strip s = rev (dropWhile isspace (rev (dropWhile isspace s)))"

fun split_acc :: "string \<Rightarrow> string \<Rightarrow> string list" where
  "split_acc w [] = (if w = [] then [] else [rev w])"
| "split_acc w (c # cs) =
     (if isspace c then (if w = [] then split_acc [] cs else rev w # split_acc [] cs)
      else split_acc (c # w) cs)"

definition split :: "string \<Rightarrow> string list" where
  "split s = split_acc [] s"

text \<open>\<open>sep.join(words)\<close>.\<close>

fun join :: "string \<Rightarrow> string list \<Rightarrow> string" where
  "join sep [] = []"
| "join sep [w] = w"
| "join sep (w # v # ws) = w @ sep @ join sep (v # ws)"

text \<open>\<open>str.title()\<close> on ASCII letters: a letter that follows a letter is lowered, any
  other letter is raised. The program calls it on a section type only.\<close>

definition is_upper :: "char \<Rightarrow> bool" where
  "is_upper c = (let n = (of_char c :: nat) in 65 \<le> n \<and> n \<le> 90)"

definition is_lower :: "char \<Rightarrow> bool" where
  "is_lower c = (let n = (of_char c :: nat) in 97 \<le> n \<and> n \<le> 122)"

definition upper_char :: "char \<Rightarrow> char" where
  "upper_char c = (if is_lower c then char_of ((of_char c :: nat) - 32) else c)"

fun title_acc :: "bool \<Rightarrow> string \<Rightarrow> string" where
  "title_acc prev [] = []"
| "title_acc prev (c # cs) =
     (if is_upper c \<or> is_lower c
      then (if prev then lower_char c else upper_char c) # title_acc True cs
      else c # title_acc False cs)"

definition title_str :: "string \<Rightarrow> string" where
  "title_str s = title_acc False s"

text \<open>\<open>str(n)\<close> for a non-negative integer: its decimal digits.\<close>

definition digit_char :: "nat \<Rightarrow> char" where
  "digit_char d = char_of (48 + d)"

fun str_nat :: "nat \<Rightarrow> string" where
  "str_nat n = (if n < 10 then [digit_char n] else str_nat (n div 10) @ [digit_char (n mod 10)])"

declare str_nat.simps [simp del]

section \<open>The parsed document\<close>

text \<open>
  The HTML parser and its CSS queries are a library. A node is what the program can
  observe of it: its serialised markup \<open>.html\<close>, its flattened text \<open>.text(strip=True)\<close>,
  its attribute dictionary (an attribute without a value maps to \<open>None\<close>) and, for every
  selector, the nodes that \<open>.css(selector)\<close> returns, in document order. The parser object
  answers the same queries for the whole document.
\<close>

datatype node = Node
  (html: string)
  (text_strip: string)
  (attributes: "(string \<times> string option) list")
  (css_table: "(string \<times> node list) list")

definition css :: "node \<Rightarrow> string \<Rightarrow> node list" where
  "css n sel = (case map_of (css_table n) sel of None \<Rightarrow> [] | Some ns \<Rightarrow> ns)"

definition css_first :: "node \<Rightarrow> string \<Rightarrow> node option" where
  "css_first n sel = (case css n sel of [] \<Rightarrow> None | x # _ \<Rightarrow> Some x)"

text \<open>\<open>attributes.get(key, default)\<close>: the default only when the key is absent.\<close>

definition attr_get :: "node \<Rightarrow> string \<Rightarrow> string \<Rightarrow> string option" where
  "attr_get n k d = (case map_of (attributes n) k of None \<Rightarrow> Some d | Some v \<Rightarrow> v)"

text \<open>Truth value of an optional string: \<open>None\<close> and the empty string are false.
  \<open>truthy_value\<close> gives the string of a true value.\<close>

definition truthy :: "string option \<Rightarrow> bool" where
  "truthy v = (case v of None \<Rightarrow> False | Some s \<Rightarrow> s \<noteq> [])"

definition truthy_value :: "string option \<Rightarrow> string option" where
  "truthy_value v = (if truthy v then v else None)"

section \<open>The data model\<close>

record LinkItem =
  link_text :: string
  href :: string

record ImageItem =
  src :: string
  alt :: string

record SectionContent =
  headings :: "string list"
  content_text :: string
  links :: "LinkItem list"
  images :: "ImageItem list"
  lists :: "string list list"
  tables :: "string list list list"

record Section =
  section_id :: string
  section_type :: string
  label :: string
  sourceUrl :: string
  content :: SectionContent
  rawHtml :: string
  truncated :: bool

record Meta =
  title :: string
  description :: string
  language :: string
  canonical :: "string option"

record Interactions =
  clicks :: "string list"
  scrolls :: nat
  pages :: "string list"

record Error =
  message :: string
  phase :: string

record ScrapeResult =
  url :: string
  scrapedAt :: string
  meta :: Meta
  sections :: "Section list"
  interactions :: Interactions
  errors :: "Error list"

text \<open>Exceptions, each with the text that \<open>str(e)\<close> gives.\<close>

datatype exn =
    ValueError string
  | ValidationError string
  | PlaywrightTimeout string
  | OtherException string

fun str_exn :: "exn \<Rightarrow> string" where
  "str_exn (ValueError m) = m"
| "str_exn (ValidationError m) = m"
| "str_exn (PlaywrightTimeout m) = m"
| "str_exn (OtherException m) = m"

text \<open>A field declared \<open>str\<close> rejects \<open>None\<close>: the model's constructor raises.\<close>

definition str_field :: "string \<Rightarrow> string option \<Rightarrow> exn + string" where
  "str_field name v = (case v of None \<Rightarrow> Inl (ValidationError name) | Some s \<Rightarrow> Inr s)"

section \<open>Classification and labelling\<close>

definition determine_section_type :: "string \<Rightarrow> string list \<Rightarrow> string \<Rightarrow> string" where
  "determine_section_type tag_name hs text =
     (case map_of [(''header'', ''hero''), (''nav'', ''nav''), (''footer'', ''footer'')] tag_name of
        Some t \<Rightarrow> t
      | None \<Rightarrow>
          (let text_lower = lower text in
           if list_ex (\<lambda>word. str_in word text_lower) [''pricing'', ''price'', ''$'', ''plan'']
           then ''pricing''
           else if list_ex (\<lambda>word. str_in word text_lower) [''faq'', ''question'', ''answer'']
           then ''faq''
           else if str_in ''grid'' text_lower \<or> str_in ''gallery'' text_lower
           then ''grid''
           else ''section''))"

definition generate_label :: "string list \<Rightarrow> string \<Rightarrow> string \<Rightarrow> string" where
  "generate_label hs text stype =
     (case hs of
        h # _ \<Rightarrow> h
      | [] \<Rightarrow>
          (let words = take 7 (split text) in
           if words \<noteq> []
           then (if length (split text) > 7 then join '' '' words @ ''...'' else join '' '' words)
           else title_str stype))"

section \<open>Parsing one candidate element\<close>

text \<open>
  \<open>urljoin\<close> is the standard library's; \<open>parse_section\<close> takes it as the parameter \<open>uj\<close>,
  which may raise.
\<close>

fun collect_headings :: "node list \<Rightarrow> string list" where
  "collect_headings [] = []"
| "collect_headings (h # hs) =
     (let heading_text = text_strip h in
      if heading_text \<noteq> [] then heading_text # collect_headings hs else collect_headings hs)"

fun collect_links :: "(string \<Rightarrow> string \<Rightarrow> exn + string) \<Rightarrow> string \<Rightarrow> node list \<Rightarrow> exn + LinkItem list" where
  "collect_links uj source_url [] = Inr []"
| "collect_links uj source_url (a # as) =
     (let link_text = text_strip a in
      case truthy_value (attr_get a ''href'' []) of
        None \<Rightarrow> collect_links uj source_url as
      | Some h \<Rightarrow>
          (case uj source_url h of
             Inl e \<Rightarrow> Inl e
           | Inr absolute_href \<Rightarrow>
               (case collect_links uj source_url as of
                  Inl e \<Rightarrow> Inl e
                | Inr ls \<Rightarrow> Inr (\<lparr>link_text = link_text, href = absolute_href\<rparr> # ls))))"

text \<open>\<open>a or b\<close> on two optional strings.\<close>

definition py_or :: "string option \<Rightarrow> string option \<Rightarrow> string option" where
  "py_or a b = (if truthy a then a else b)"

fun collect_images :: "(string \<Rightarrow> string \<Rightarrow> exn + string) \<Rightarrow> string \<Rightarrow> node list \<Rightarrow> exn + ImageItem list" where
  "collect_images uj source_url [] = Inr []"
| "collect_images uj source_url (img # imgs) =
     (let a = attr_get img ''alt'' [] in
      case truthy_value (py_or (attr_get img ''src'' []) (attr_get img ''data-src'' [])) of
        None \<Rightarrow> collect_images uj source_url imgs
      | Some s \<Rightarrow>
          (case uj source_url s of
             Inl e \<Rightarrow> Inl e
           | Inr absolute_src \<Rightarrow>
               (case str_field ''alt'' a of
                  Inl e \<Rightarrow> Inl e
                | Inr alt_text \<Rightarrow>
                    (case collect_images uj source_url imgs of
                       Inl e \<Rightarrow> Inl e
                     | Inr is \<Rightarrow> Inr (\<lparr>src = absolute_src, alt = alt_text\<rparr> # is)))))"

fun collect_lists :: "node list \<Rightarrow> string list list" where
  "collect_lists [] = []"
| "collect_lists (ul # uls) =
     (let list_items = map text_strip (css ul ''li'') in
      if list_items \<noteq> [] then list_items # collect_lists uls else collect_lists uls)"

fun collect_rows :: "node list \<Rightarrow> string list list" where
  "collect_rows [] = []"
| "collect_rows (row # rows) =
     (let row_data = map text_strip (css row ''td, th'') in
      if row_data \<noteq> [] then row_data # collect_rows rows else collect_rows rows)"

fun collect_tables :: "node list \<Rightarrow> string list list list" where
  "collect_tables [] = []"
| "collect_tables (t # ts) =
     (let table_data = collect_rows (css t ''tr'') in
      if table_data \<noteq> [] then table_data # collect_tables ts else collect_tables ts)"

definition parse_section ::
  "(string \<Rightarrow> string \<Rightarrow> exn + string) \<Rightarrow> node \<Rightarrow> nat \<Rightarrow> string \<Rightarrow> string \<Rightarrow> exn + Section" where
  "parse_section uj elem sid tag_name source_url =
     (let hs = collect_headings (css elem ''h1, h2, h3, h4, h5, h6'');
          text = text_strip elem in
      case collect_links uj source_url (css elem ''a'') of
        Inl e \<Rightarrow> Inl e
      | Inr ls \<Rightarrow>
          (case collect_images uj source_url (css elem ''img'') of
             Inl e \<Rightarrow> Inl e
           | Inr is \<Rightarrow>
               (let lsts = collect_lists (css elem ''ul, ol'');
                    tbls = collect_tables (css elem ''table'');
                    stype = determine_section_type tag_name hs text;
                    lbl = generate_label hs text stype;
                    raw_html = html elem;
                    cut = length raw_html > 1000
                in Inr \<lparr>section_id = stype @ ''-'' @ str_nat sid,
                         section_type = stype,
                         label = lbl,
                         sourceUrl = source_url,
                         content = \<lparr>headings = hs, content_text = text, links = ls,
                                     images = is, lists = lsts, tables = tbls\<rparr>,
                         rawHtml = (if cut then take 1000 raw_html @ ''...'' else raw_html),
                         truncated = cut\<rparr>)))"

section \<open>Extracting the sections of a document\<close>

definition create_empty_section :: "string \<Rightarrow> Section" where
  "create_empty_section source_url =
     \<lparr>section_id = ''section-0'',
      section_type = ''unknown'',
      label = ''Content'',
      sourceUrl = source_url,
      content = \<lparr>headings = [], content_text = [], links = [], images = [],
                  lists = [], tables = []\<rparr>,
      rawHtml = [],
      truncated = False\<rparr>"

definition semantic_selectors :: "string list" where
  "semantic_selectors =
     [''header'', ''nav'', ''main'', ''section'', ''article'', ''aside'', ''footer'']"

text \<open>
  The inner loop of the semantic tier over the elements of one selector. The state is
  the list \<open>sections\<close> and the counter \<open>section_id\<close>; an exception leaves the loop.
\<close>

fun semantic_elements ::
  "(string \<Rightarrow> string \<Rightarrow> exn + string) \<Rightarrow> string \<Rightarrow> string \<Rightarrow> node list \<Rightarrow>
   Section list \<times> nat \<Rightarrow> exn + Section list \<times> nat" where
  "semantic_elements uj source_url selector [] st = Inr st"
| "semantic_elements uj source_url selector (elem # elems) (secs, sid) =
     (case parse_section uj elem sid selector source_url of
        Inl e \<Rightarrow> Inl e
      | Inr s \<Rightarrow>
          if strip (content_text (content s)) \<noteq> []
          then semantic_elements uj source_url selector elems (secs @ [s], sid + 1)
          else semantic_elements uj source_url selector elems (secs, sid))"

fun semantic_tier ::
  "(string \<Rightarrow> string \<Rightarrow> exn + string) \<Rightarrow> node \<Rightarrow> string \<Rightarrow> string list \<Rightarrow>
   Section list \<times> nat \<Rightarrow> exn + Section list \<times> nat" where
  "semantic_tier uj parser source_url [] st = Inr st"
| "semantic_tier uj parser source_url (selector # selectors) st =
     (case semantic_elements uj source_url selector (css parser selector) st of
        Inl e \<Rightarrow> Inl e
      | Inr st' \<Rightarrow> semantic_tier uj parser source_url selectors st')"

text \<open>The loop of the second tier, over at most ten \<open>div\<close> children of the body.\<close>

fun div_tier ::
  "(string \<Rightarrow> string \<Rightarrow> exn + string) \<Rightarrow> string \<Rightarrow> node list \<Rightarrow>
   Section list \<times> nat \<Rightarrow> exn + Section list \<times> nat" where
  "div_tier uj source_url [] st = Inr st"
| "div_tier uj source_url (elem # elems) (secs, sid) =
     (case parse_section uj elem sid ''section'' source_url of
        Inl e \<Rightarrow> Inl e
      | Inr s \<Rightarrow>
          if length (content_text (content s)) > 50
          then div_tier uj source_url elems (secs @ [s], sid + 1)
          else div_tier uj source_url elems (secs, sid))"

text \<open>The third tier: the whole body, with index 0 and no test on its text.\<close>

definition body_tier ::
  "(string \<Rightarrow> string \<Rightarrow> exn + string) \<Rightarrow> node \<Rightarrow> string \<Rightarrow> Section list \<Rightarrow>
   exn + Section list" where
  "body_tier uj parser source_url secs =
     (case css_first parser ''body'' of
        None \<Rightarrow> Inr secs
      | Some body \<Rightarrow>
          (case parse_section uj body 0 ''section'' source_url of
             Inl e \<Rightarrow> Inl e
           | Inr s \<Rightarrow> Inr (secs @ [s])))"

definition extract_sections ::
  "(string \<Rightarrow> string \<Rightarrow> exn + string) \<Rightarrow> node \<Rightarrow> string \<Rightarrow> exn + Section list" where
  "extract_sections uj parser source_url =
     (case semantic_tier uj parser source_url semantic_selectors ([], 0) of
        Inl e \<Rightarrow> Inl e
      | Inr st1 \<Rightarrow>
          (case (if fst st1 = []
                 then div_tier uj source_url (take 10 (css parser ''body > div'')) st1
                 else Inr st1) of
             Inl e \<Rightarrow> Inl e
           | Inr st2 \<Rightarrow>
               (case (if fst st2 = []
                      then body_tier uj parser source_url (fst st2)
                      else Inr (fst st2)) of
                  Inl e \<Rightarrow> Inl e
                | Inr secs \<Rightarrow>
                    Inr (if secs \<noteq> [] then secs else [create_empty_section source_url]))))"

section \<open>The rendering heuristic and the metadata\<close>

definition indicators :: "string list" where
  \<open>indicators = [''id="root"'', ''id="__next"'', ''id="app"'', ''data-reactroot'', ''ng-app'']\<close>

text \<open>The loop over the three mount containers; it returns at the first short one.\<close>

fun empty_container :: "node \<Rightarrow> string list \<Rightarrow> bool" where
  "empty_container parser [] = False"
| "empty_container parser (selector # selectors) =
     (case css_first parser selector of
        None \<Rightarrow> empty_container parser selectors
      | Some elem \<Rightarrow>
          if length (text_strip elem) < 100 then True
          else empty_container parser selectors)"

definition needs_js_rendering :: "node \<Rightarrow> bool" where
  "needs_js_rendering parser =
     (case css_first parser ''body'' of
        None \<Rightarrow> True
      | Some body \<Rightarrow>
          (let text_content = text_strip body in
           if length text_content < 200 then True
           else
             (let html_str = html parser in
              if list_ex (\<lambda>ind. str_in ind html_str) indicators
              then empty_container parser [''#root'', ''#__next'', ''#app'']
              else False)))"

definition extract_meta :: "node \<Rightarrow> exn + Meta" where
  \<open>extract_meta parser =
     (let t = (case css_first parser ''title'' of
                 Some title_elem \<Rightarrow> Some (text_strip title_elem)
               | None \<Rightarrow>
                   (case css_first parser ''meta[property="og:title"]'' of
                      Some og_title \<Rightarrow> attr_get og_title ''content'' []
                    | None \<Rightarrow> Some []));
          d = (case css_first parser ''meta[name="description"]'' of
                 Some desc_elem \<Rightarrow> attr_get desc_elem ''content'' []
               | None \<Rightarrow>
                   (case css_first parser ''meta[property="og:description"]'' of
                      Some og_desc \<Rightarrow> attr_get og_desc ''content'' []
                    | None \<Rightarrow> Some []));
          l = (case css_first parser ''html'' of
                 Some html_elem \<Rightarrow> attr_get html_elem ''lang'' ''en''
               | None \<Rightarrow> Some ''en'');
          c = (case css_first parser ''link[rel="canonical"]'' of
                 Some canon_elem \<Rightarrow> attr_get canon_elem ''href'' []
               | None \<Rightarrow> None)
      in case str_field ''title'' t of
           Inl e \<Rightarrow> Inl e
         | Inr t' \<Rightarrow>
             (case str_field ''description'' d of
                Inl e \<Rightarrow> Inl e
              | Inr d' \<Rightarrow>
                  (case str_field ''language'' l of
                     Inl e \<Rightarrow> Inl e
                   | Inr l' \<Rightarrow>
                       Inr \<lparr>title = t', description = d', language = l', canonical = c\<rparr>)))\<close>

section \<open>The world outside the program\<close>

text \<open>
  The HTTP client, the browser, the parser and the clock are libraries. Their calls are
  the fields of a record. \<open>'p\<close> is the state of the browser page and \<open>'h\<close> an element
  handle; a call on the page returns the page after the call, with the value or the
  exception it gave. \<open>launch\<close> stands for starting the browser and opening a page,
  \<open>http_get\<close> for the GET request with its status check, and \<open>now\<close> for the time stamp
  of the result.
\<close>

record ('p, 'h) world =
  http_get :: "string \<Rightarrow> exn + string"
  HTMLParser :: "string \<Rightarrow> node"
  urljoin :: "string \<Rightarrow> string \<Rightarrow> exn + string"
  now :: string
  launch :: "exn + 'p"
  goto :: "string \<Rightarrow> nat \<Rightarrow> 'p \<Rightarrow> 'p \<times> (exn + unit)"
  wait_for_timeout :: "nat \<Rightarrow> 'p \<Rightarrow> 'p \<times> (exn + unit)"
  wait_for_load_state :: "string \<Rightarrow> nat \<Rightarrow> 'p \<Rightarrow> 'p \<times> (exn + unit)"
  evaluate :: "string \<Rightarrow> 'p \<Rightarrow> 'p \<times> (exn + unit)"
  query_selector :: "string \<Rightarrow> 'p \<Rightarrow> 'p \<times> (exn + 'h option)"
  query_selector_all :: "string \<Rightarrow> 'p \<Rightarrow> 'p \<times> (exn + 'h list)"
  click :: "'h \<Rightarrow> nat \<Rightarrow> 'p \<Rightarrow> 'p \<times> (exn + unit)"
  page_url :: "'p \<Rightarrow> string"
  page_content :: "'p \<Rightarrow> 'p \<times> (exn + string)"
  close :: "'p \<Rightarrow> exn + unit"

section \<open>The engine and its interactions with the page\<close>

record ScraperEngine =
  eng_url :: string
  visited_pages :: "string list"
  clicks_performed :: "string list"
  scroll_count :: nat
  eng_errors :: "Error list"
  strategy :: string

definition init :: "string \<Rightarrow> ScraperEngine" where
  "init u = \<lparr>eng_url = u, visited_pages = [u], clicks_performed = [], scroll_count = 0,
              eng_errors = [], strategy = ''static''\<rparr>"

definition add_error :: "string \<Rightarrow> string \<Rightarrow> ScraperEngine \<Rightarrow> ScraperEngine" where
  "add_error m ph eng = eng\<lparr>eng_errors := eng_errors eng @ [\<lparr>message = m, phase = ph\<rparr>]\<rparr>"

definition add_click :: "string \<Rightarrow> ScraperEngine \<Rightarrow> ScraperEngine" where
  "add_click c eng = eng\<lparr>clicks_performed := clicks_performed eng @ [c]\<rparr>"

text \<open>\<open>range(n)\<close>.\<close>

definition py_range :: "nat \<Rightarrow> nat list" where
  "py_range n = [0..<n]"

subsection \<open>Noise removal\<close>

definition noise_selectors :: "string list" where
  \<open>noise_selectors =
     [''[id*="cookie"]'', ''[class*="cookie"]'', ''[id*="banner"]'', ''[class*="banner"]'',
      ''[id*="modal"]'', ''[class*="modal"]'', ''[id*="popup"]'', ''[class*="popup"]'',
      ''[role="dialog"]'', ''.newsletter-popup'', ''#onetrust-banner-sdk'']\<close>

definition noise_script :: "string \<Rightarrow> string" where
  \<open>noise_script selector =
     CHR 0x0A # replicate 20 CHR '' '' @ ''document.querySelectorAll("'' @ selector
       @ ''").forEach(el => el.remove());'' @ CHR 0x0A # replicate 16 CHR '' ''\<close>

fun remove_noise :: "('p, 'h) world \<Rightarrow> string list \<Rightarrow> 'p \<Rightarrow> 'p" where
  "remove_noise W [] p = p"
| "remove_noise W (selector # selectors) p =
     (case evaluate W (noise_script selector) p of
        (p1, Inl e) \<Rightarrow> remove_noise W selectors p1
      | (p1, Inr u) \<Rightarrow> remove_noise W selectors p1)"

subsection \<open>Clicks\<close>

definition tab_selectors :: "string list" where
  \<open>tab_selectors = [''[role="tab"]'', ''button[aria-controls]'', ''.tab'', ''[data-tab]'']\<close>

definition load_more_selectors :: "string list" where
  \<open>load_more_selectors =
     [''button:has-text("Load more")'', ''button:has-text("Show more")'',
      ''button:has-text("See more")'', ''[class*="load-more"]'', ''[class*="show-more"]'']\<close>

text \<open>The loop over the first tabs of one selector; \<open>i\<close> is the index of \<open>enumerate\<close>.\<close>

fun click_tabs ::
  "('p, 'h) world \<Rightarrow> string \<Rightarrow> nat \<Rightarrow> 'h list \<Rightarrow> 'p \<times> ScraperEngine \<Rightarrow> 'p \<times> ScraperEngine" where
  "click_tabs W selector i [] st = st"
| "click_tabs W selector i (tab # tabs) (p, eng) =
     (case click W tab 2000 p of
        (p1, Inl e) \<Rightarrow> click_tabs W selector (i + 1) tabs (p1, eng)
      | (p1, Inr u) \<Rightarrow>
          (case wait_for_timeout W 1000 p1 of
             (p2, Inl e) \<Rightarrow> click_tabs W selector (i + 1) tabs (p2, eng)
           | (p2, Inr u) \<Rightarrow>
               click_tabs W selector (i + 1) tabs
                 (p2, add_click (selector @ ''['' @ str_nat i @ '']'') eng)))"

text \<open>The loop over the tab selectors; it stops at the first one with several matches.\<close>

fun click_tab_selectors ::
  "('p, 'h) world \<Rightarrow> string list \<Rightarrow> 'p \<times> ScraperEngine \<Rightarrow> 'p \<times> ScraperEngine" where
  "click_tab_selectors W [] st = st"
| "click_tab_selectors W (selector # selectors) (p, eng) =
     (case query_selector_all W selector p of
        (p1, Inl e) \<Rightarrow> click_tab_selectors W selectors (p1, eng)
      | (p1, Inr tabs) \<Rightarrow>
          if tabs \<noteq> [] \<and> length tabs > 1
          then click_tabs W selector 0 (take 3 tabs) (p1, eng)
          else click_tab_selectors W selectors (p1, eng))"

text \<open>
  The attempts on one load-more selector. The \<open>try\<close> is around the whole \<open>for\<close>, so an
  exception ends the attempts on this selector, as a lookup that finds nothing does.
\<close>

fun load_more_attempts ::
  "('p, 'h) world \<Rightarrow> string \<Rightarrow> nat list \<Rightarrow> 'p \<times> ScraperEngine \<Rightarrow> 'p \<times> ScraperEngine" where
  "load_more_attempts W selector [] st = st"
| "load_more_attempts W selector (attempt # attempts) (p, eng) =
     (case query_selector W selector p of
        (p1, Inl e) \<Rightarrow> (p1, eng)
      | (p1, Inr None) \<Rightarrow> (p1, eng)
      | (p1, Inr (Some button)) \<Rightarrow>
          (case click W button 2000 p1 of
             (p2, Inl e) \<Rightarrow> (p2, eng)
           | (p2, Inr u) \<Rightarrow>
               (case wait_for_timeout W 1500 p2 of
                  (p3, Inl e) \<Rightarrow> (p3, eng)
                | (p3, Inr u) \<Rightarrow>
                    load_more_attempts W selector attempts (p3, add_click selector eng))))"

fun click_load_more ::
  "('p, 'h) world \<Rightarrow> string list \<Rightarrow> 'p \<times> ScraperEngine \<Rightarrow> 'p \<times> ScraperEngine" where
  "click_load_more W [] st = st"
| "click_load_more W (selector # selectors) st =
     click_load_more W selectors (load_more_attempts W selector (py_range 3) st)"

definition perform_clicks :: "('p, 'h) world \<Rightarrow> 'p \<times> ScraperEngine \<Rightarrow> 'p \<times> ScraperEngine" where
  "perform_clicks W st =
     click_load_more W load_more_selectors (click_tab_selectors W tab_selectors st)"

subsection \<open>Pagination and scrolling\<close>

definition next_selectors :: "string list" where
  \<open>next_selectors =
     [''a:has-text("Next")'', ''a:has-text("next")'', ''[rel="next"]'',
      ''.pagination a:last-child'', ''a[aria-label*="next" i]'']\<close>

text \<open>
  The loop over the selectors of one round. The state carries the page, the engine and
  the locals \<open>current_url\<close> and \<open>pagination_attempted\<close>. An exception goes on with the
  next selector; a link that was found and clicked ends the round.
\<close>

fun try_next_selectors ::
  "('p, 'h) world \<Rightarrow> string list \<Rightarrow> 'p \<times> ScraperEngine \<times> string \<times> bool \<Rightarrow>
   'p \<times> ScraperEngine \<times> string \<times> bool" where
  "try_next_selectors W [] st = st"
| "try_next_selectors W (selector # selectors) (p, eng, current_url, pagination_attempted) =
     (case query_selector W selector p of
        (p1, Inl e) \<Rightarrow>
          try_next_selectors W selectors (p1, eng, current_url, pagination_attempted)
      | (p1, Inr None) \<Rightarrow>
          try_next_selectors W selectors (p1, eng, current_url, pagination_attempted)
      | (p1, Inr (Some next_link)) \<Rightarrow>
          (case click W next_link 3000 p1 of
             (p2, Inl e) \<Rightarrow>
               try_next_selectors W selectors (p2, eng, current_url, pagination_attempted)
           | (p2, Inr u) \<Rightarrow>
               (case wait_for_load_state W ''networkidle'' 5000 p2 of
                  (p3, Inl e) \<Rightarrow>
                    try_next_selectors W selectors (p3, eng, current_url, pagination_attempted)
                | (p3, Inr u) \<Rightarrow>
                    (let new_url = page_url W p3 in
                     if new_url \<noteq> current_url \<and> new_url \<notin> set (visited_pages eng)
                     then
                       (let eng' = eng\<lparr>visited_pages := visited_pages eng @ [new_url]\<rparr> in
                        case wait_for_timeout W 1000 p3 of
                          (p4, Inl e) \<Rightarrow> try_next_selectors W selectors (p4, eng', new_url, True)
                        | (p4, Inr u) \<Rightarrow> (p4, eng', new_url, True))
                     else (p3, eng, current_url, pagination_attempted)))))"

fun paginate ::
  "('p, 'h) world \<Rightarrow> nat list \<Rightarrow> 'p \<times> ScraperEngine \<times> string \<times> bool \<Rightarrow>
   'p \<times> ScraperEngine \<times> string \<times> bool" where
  "paginate W [] st = st"
| "paginate W (depth # depths) st =
     (case try_next_selectors W next_selectors st of
        (p, eng, current_url, pagination_attempted) \<Rightarrow>
          if \<not> pagination_attempted then (p, eng, current_url, pagination_attempted)
          else paginate W depths (p, eng, current_url, pagination_attempted))"

fun scroll ::
  "('p, 'h) world \<Rightarrow> nat list \<Rightarrow> 'p \<times> ScraperEngine \<Rightarrow> 'p \<times> ScraperEngine" where
  "scroll W [] st = st"
| "scroll W (i # is) (p, eng) =
     (case evaluate W ''window.scrollTo(0, document.body.scrollHeight)'' p of
        (p1, Inl e) \<Rightarrow> scroll W is (p1, eng)
      | (p1, Inr u) \<Rightarrow>
          (case wait_for_timeout W 2000 p1 of
             (p2, Inl e) \<Rightarrow> scroll W is (p2, eng)
           | (p2, Inr u) \<Rightarrow> scroll W is (p2, eng\<lparr>scroll_count := scroll_count eng + 1\<rparr>)))"

definition perform_scroll_pagination ::
  "('p, 'h) world \<Rightarrow> 'p \<times> ScraperEngine \<Rightarrow> 'p \<times> ScraperEngine" where
  "perform_scroll_pagination W st =
     (case st of
        (p0, eng0) \<Rightarrow>
          (case paginate W (py_range 3) (p0, eng0, page_url W p0, False) of
             (p, eng, current_url, pagination_attempted) \<Rightarrow>
               if \<not> pagination_attempted \<or> length (visited_pages eng) < 3
               then scroll W (py_range 3) (p, eng)
               else (p, eng)))"

section \<open>Fetching and the whole scrape\<close>

text \<open>
  The body of the \<open>try\<close> of the rendered fetch: it returns the page and the engine as
  they are when it ends, with the markup or the exception that ended it.
\<close>

definition render_body ::
  "('p, 'h) world \<Rightarrow> 'p \<Rightarrow> ScraperEngine \<Rightarrow> 'p \<times> ScraperEngine \<times> (exn + string)" where
  "render_body W p0 eng =
     (case goto W (eng_url eng) 30000 p0 of
        (p1, Inl e) \<Rightarrow> (p1, eng, Inl e)
      | (p1, Inr u) \<Rightarrow>
          (case wait_for_timeout W 2000 p1 of
             (p2, Inl e) \<Rightarrow> (p2, eng, Inl e)
           | (p2, Inr u) \<Rightarrow>
               (case perform_scroll_pagination W
                       (perform_clicks W (remove_noise W noise_selectors p2, eng)) of
                  (p3, eng3) \<Rightarrow>
                    (case page_content W p3 of
                       (p4, Inl e) \<Rightarrow> (p4, eng3, Inl e)
                     | (p4, Inr html_content) \<Rightarrow>
                         (case close W p4 of
                            Inl e \<Rightarrow> (p4, eng3, Inl e)
                          | Inr u \<Rightarrow> (p4, eng3, Inr html_content))))))"

text \<open>
  The rendered fetch with its two handlers: a timeout is recorded and the markup read
  all the same; any other exception is recorded and raised again. An exception inside a
  handler leaves the function.
\<close>

definition fetch_with_playwright ::
  "('p, 'h) world \<Rightarrow> ScraperEngine \<Rightarrow> ScraperEngine \<times> (exn + string)" where
  "fetch_with_playwright W eng =
     (case launch W of
        Inl e \<Rightarrow> (eng, Inl e)
      | Inr p0 \<Rightarrow>
          (case render_body W p0 eng of
             (p, eng1, Inr html_content) \<Rightarrow> (eng1, Inr html_content)
           | (p, eng1, Inl (PlaywrightTimeout m)) \<Rightarrow>
               (let eng2 = add_error (''Timeout: '' @ m) ''render'' eng1 in
                case page_content W p of
                  (p', Inl e) \<Rightarrow> (eng2, Inl e)
                | (p', Inr html_content) \<Rightarrow>
                    (case close W p' of
                       Inl e \<Rightarrow> (eng2, Inl e)
                     | Inr u \<Rightarrow> (eng2, Inr html_content)))
           | (p, eng1, Inl e) \<Rightarrow>
               (let eng2 = add_error (str_exn e) ''render'' eng1 in
                case close W p of
                  Inl e' \<Rightarrow> (eng2, Inl e')
                | Inr u \<Rightarrow> (eng2, Inl e))))"

definition fetch_static ::
  "('p, 'h) world \<Rightarrow> ScraperEngine \<Rightarrow> ScraperEngine \<times> (exn + string)" where
  "fetch_static W eng =
     (case http_get W (eng_url eng) of
        Inl e \<Rightarrow> (add_error (str_exn e) ''fetch'' eng, Inl e)
      | Inr response_text \<Rightarrow> (eng, Inr response_text))"

definition interactions_of :: "ScraperEngine \<Rightarrow> Interactions" where
  "interactions_of eng =
     \<lparr>clicks = clicks_performed eng, scrolls = scroll_count eng, pages = visited_pages eng\<rparr>"

text \<open>The body of the \<open>try\<close> of \<open>scrape\<close>.\<close>

definition scrape_body ::
  "('p, 'h) world \<Rightarrow> ScraperEngine \<Rightarrow> ScraperEngine \<times> (exn + ScrapeResult)" where
  "scrape_body W eng =
     (case fetch_static W eng of
        (eng1, Inl e) \<Rightarrow> (eng1, Inl e)
      | (eng1, Inr html_content) \<Rightarrow>
          (case (if needs_js_rendering (HTMLParser W html_content)
                 then
                   (case fetch_with_playwright W
                           (add_error ''Static content insufficient, using JS rendering''
                              ''detection'' (eng1\<lparr>strategy := ''js''\<rparr>)) of
                      (eng2, Inl e) \<Rightarrow> (eng2, Inl e)
                    | (eng2, Inr rendered) \<Rightarrow> (eng2, Inr (HTMLParser W rendered)))
                 else (eng1, Inr (HTMLParser W html_content))) of
             (eng3, Inl e) \<Rightarrow> (eng3, Inl e)
           | (eng3, Inr parser) \<Rightarrow>
               (case extract_meta parser of
                  Inl e \<Rightarrow> (eng3, Inl e)
                | Inr m \<Rightarrow>
                    (case extract_sections (urljoin W) parser (eng_url eng3) of
                       Inl e \<Rightarrow> (eng3, Inl e)
                     | Inr secs \<Rightarrow>
                         (eng3, Inr \<lparr>url = eng_url eng3,
                                     scrapedAt = now W,
                                     meta = m,
                                     sections = secs,
                                     interactions = interactions_of eng3,
                                     errors = eng_errors eng3\<rparr>)))))"

text \<open>\<open>scrape\<close>: the result of the body, or the partial result of the handler.\<close>

definition scrape :: "('p, 'h) world \<Rightarrow> ScraperEngine \<Rightarrow> ScraperEngine \<times> ScrapeResult" where
  "scrape W eng =
     (case scrape_body W eng of
        (eng1, Inr result) \<Rightarrow> (eng1, result)
      | (eng1, Inl e) \<Rightarrow>
          (let eng2 = add_error (str_exn e) ''scrape'' eng1 in
           (eng2, \<lparr>url = eng_url eng2,
                   scrapedAt = now W,
                   meta = \<lparr>title = [], description = [], language = ''en'', canonical = None\<rparr>,
                   sections = [],
                   interactions = interactions_of eng2,
                   errors = eng_errors eng2\<rparr>)))"

text \<open>
  The request model accepts a URL that starts with \<open>http://\<close> or \<open>https://\<close> only; the
  request handler then builds a new engine for the URL and scrapes. \<open>scrape\<close> itself
  never raises.
\<close>

definition validate_url :: "string \<Rightarrow> exn + string" where
  "validate_url v =
     (if \<not> (startswith v ''http://'' \<or> startswith v ''https://'')
      then Inl (ValueError ''URL must start with http:// or https://'')
      else Inr v)"

definition scrape_url :: "('p, 'h) world \<Rightarrow> string \<Rightarrow> exn + ScrapeResult" where
  "scrape_url W request_url =
     (case validate_url request_url of
        Inl e \<Rightarrow> Inl e
      | Inr v \<Rightarrow> Inr (snd (scrape W (init v))))"

section \<open>The URL library\<close>

text \<open>
  \<open>urljoin\<close> of Python's \<open>urllib.parse\<close>, which the program calls on every link and
  image, translated from the library's text. Two checks inside it belong to other
  libraries and are parameters: the check of a bracketed host (an IP literal) and the
  normalisation check of a host that is not ASCII. Each returns the exception it raises,
  if any.
\<close>

record urllib =
  check_bracketed_host :: "string \<Rightarrow> exn option"
  checknetloc_nfkc :: "string \<Rightarrow> exn option"

definition uses_relative :: "string list" where
  "uses_relative = ['''', ''ftp'', ''http'', ''gopher'', ''nntp'', ''imap'', ''wais'', ''file'',
     ''https'', ''shttp'', ''mms'', ''prospero'', ''rtsp'', ''rtsps'', ''rtspu'', ''sftp'', ''svn'',
     ''svn+ssh'', ''ws'', ''wss'']"

definition uses_netloc :: "string list" where
  "uses_netloc = ['''', ''ftp'', ''http'', ''gopher'', ''nntp'', ''telnet'', ''imap'', ''wais'',
     ''file'', ''mms'', ''https'', ''shttp'', ''snews'', ''prospero'', ''rtsp'', ''rtsps'', ''rtspu'',
     ''rsync'', ''svn'', ''svn+ssh'', ''sftp'', ''nfs'', ''git'', ''git+ssh'', ''ws'', ''wss'']"

definition uses_params :: "string list" where
  "uses_params = ['''', ''ftp'', ''hdl'', ''prospero'', ''http'', ''imap'', ''https'', ''shttp'',
     ''rtsp'', ''rtsps'', ''rtspu'', ''sip'', ''sips'', ''mms'', ''sftp'', ''tel'']"

definition scheme_chars :: string where
  "scheme_chars =
     ''abcdefghijklmnopqrstuvwxyzABCDEFGHIJKLMNOPQRSTUVWXYZ0123456789+-.''"

text \<open>The C0 control characters and the space, which \<open>urlsplit\<close> strips; the three
  characters it removes everywhere.\<close>

definition c0_or_space :: "char \<Rightarrow> bool" where
  "c0_or_space c = ((of_char c :: nat) \<le> 32)"

definition unsafe_byte :: "char \<Rightarrow> bool" where
  "unsafe_byte c = ((of_char c :: nat) = 9 \<or> (of_char c :: nat) = 13 \<or> (of_char c :: nat) = 10)"

definition is_ascii :: "char \<Rightarrow> bool" where
  "is_ascii c = ((of_char c :: nat) < 128)"

text \<open>\<open>s.split(c, 1)\<close> when \<open>c\<close> occurs in \<open>s\<close>: the text before the first \<open>c\<close> and the
  text after it.\<close>

definition before :: "char \<Rightarrow> string \<Rightarrow> string" where
  "before c s = takeWhile (\<lambda>x. x \<noteq> c) s"

definition after :: "char \<Rightarrow> string \<Rightarrow> string" where
  "after c s = drop 1 (dropWhile (\<lambda>x. x \<noteq> c) s)"

text \<open>\<open>s.split(c)\<close>: the pieces between the occurrences of \<open>c\<close>, the empty ones too.\<close>

fun split_on_acc :: "char \<Rightarrow> string \<Rightarrow> string \<Rightarrow> string list" where
  "split_on_acc c w [] = [rev w]"
| "split_on_acc c w (x # xs) =
     (if x = c then rev w # split_on_acc c [] xs else split_on_acc c (x # w) xs)"

definition split_on :: "char \<Rightarrow> string \<Rightarrow> string list" where
  "split_on c s = split_on_acc c [] s"

record SplitResult =
  sr_scheme :: string
  sr_netloc :: string
  sr_path :: string
  sr_query :: string
  sr_fragment :: string

definition splitnetloc :: "string \<Rightarrow> string \<times> string" where
  "splitnetloc u =
     (let rest = drop 2 u in
      (takeWhile (\<lambda>c. c \<notin> set ''/?#'') rest, dropWhile (\<lambda>c. c \<notin> set ''/?#'') rest))"

definition urlsplit :: "urllib \<Rightarrow> string \<Rightarrow> string \<Rightarrow> exn + SplitResult" where
  "urlsplit L url0 scheme0 =
     (let url1 = filter (\<lambda>c. \<not> unsafe_byte c) (dropWhile c0_or_space url0);
          scheme1 = filter (\<lambda>c. \<not> unsafe_byte c)
                      (rev (dropWhile c0_or_space (rev (dropWhile c0_or_space scheme0))));
          found = (CHR '':'' \<in> set url1 \<and> before CHR '':'' url1 \<noteq> []
                   \<and> is_ascii (hd url1) \<and> (is_upper (hd url1) \<or> is_lower (hd url1))
                   \<and> list_all (\<lambda>c. c \<in> set scheme_chars) (before CHR '':'' url1));
          scheme = (if found then lower (before CHR '':'' url1) else scheme1);
          url2 = (if found then after CHR '':'' url1 else url1);
          has_netloc = (take 2 url2 = ''//'');
          netloc = (if has_netloc then fst (splitnetloc url2) else []);
          url3 = (if has_netloc then snd (splitnetloc url2) else url2);
          fragment = (if CHR ''#'' \<in> set url3 then after CHR ''#'' url3 else []);
          url4 = (if CHR ''#'' \<in> set url3 then before CHR ''#'' url3 else url3);
          query = (if CHR ''?'' \<in> set url4 then after CHR ''?'' url4 else []);
          url5 = (if CHR ''?'' \<in> set url4 then before CHR ''?'' url4 else url4);
          result = \<lparr>sr_scheme = scheme, sr_netloc = netloc, sr_path = url5,
                    sr_query = query, sr_fragment = fragment\<rparr>
      in if has_netloc \<and> ((CHR ''['' \<in> set netloc \<and> CHR '']'' \<notin> set netloc)
                         \<or> (CHR '']'' \<in> set netloc \<and> CHR ''['' \<notin> set netloc))
         then Inl (ValueError ''Invalid IPv6 URL'')
         else
           (case (if has_netloc \<and> CHR ''['' \<in> set netloc \<and> CHR '']'' \<in> set netloc
                  then check_bracketed_host L (before CHR '']'' (after CHR ''['' netloc))
                  else None) of
              Some e \<Rightarrow> Inl e
            | None \<Rightarrow>
                (case (if netloc = [] \<or> list_all is_ascii netloc then None
                       else checknetloc_nfkc L netloc) of
                   Some e \<Rightarrow> Inl e
                 | None \<Rightarrow> Inr result)))"

record ParseResult =
  pr_scheme :: string
  pr_netloc :: string
  pr_path :: string
  pr_params :: string
  pr_query :: string
  pr_fragment :: string

text \<open>\<open>_splitparams\<close>, called on a path that contains a semicolon: the parameters start
  at the first semicolon of the last segment.\<close>

definition splitparams :: "string \<Rightarrow> string \<times> string" where
  "splitparams u =
     (if CHR ''/'' \<in> set u
      then
        (let last_seg = rev (takeWhile (\<lambda>c. c \<noteq> CHR ''/'') (rev u));
             front = take (length u - length last_seg) u
         in if CHR '';'' \<in> set last_seg
            then (front @ before CHR '';'' last_seg, after CHR '';'' last_seg)
            else (u, []))
      else (before CHR '';'' u, after CHR '';'' u))"

definition urlparse :: "urllib \<Rightarrow> string \<Rightarrow> string \<Rightarrow> exn + ParseResult" where
  "urlparse L u scheme0 =
     (case urlsplit L u scheme0 of
        Inl e \<Rightarrow> Inl e
      | Inr r \<Rightarrow>
          (let with_params = (sr_scheme r \<in> set uses_params \<and> CHR '';'' \<in> set (sr_path r))
           in Inr \<lparr>pr_scheme = sr_scheme r, pr_netloc = sr_netloc r,
                   pr_path = (if with_params then fst (splitparams (sr_path r)) else sr_path r),
                   pr_params = (if with_params then snd (splitparams (sr_path r)) else []),
                   pr_query = sr_query r, pr_fragment = sr_fragment r\<rparr>))"

definition urlunsplit :: "string \<Rightarrow> string \<Rightarrow> string \<Rightarrow> string \<Rightarrow> string \<Rightarrow> string" where
  "urlunsplit scheme netloc u query fragment =
     (let u1 = (if netloc \<noteq> [] \<or> (scheme \<noteq> [] \<and> scheme \<in> set uses_netloc) \<or> take 2 u = ''//''
                then ''//'' @ netloc @ (if u \<noteq> [] \<and> take 1 u \<noteq> ''/'' then ''/'' @ u else u)
                else u);
          u2 = (if scheme \<noteq> [] then scheme @ '':'' @ u1 else u1);
          u3 = (if query \<noteq> [] then u2 @ ''?'' @ query else u2)
      in if fragment \<noteq> [] then u3 @ ''#'' @ fragment else u3)"

definition urlunparse ::
  "string \<Rightarrow> string \<Rightarrow> string \<Rightarrow> string \<Rightarrow> string \<Rightarrow> string \<Rightarrow> string" where
  "urlunparse scheme netloc u params query fragment =
     urlunsplit scheme netloc (if params \<noteq> [] then u @ '';'' @ params else u) query fragment"

text \<open>The loop of \<open>urljoin\<close> over the path segments; \<open>..\<close> removes the last resolved
  segment, if there is one.\<close>

fun resolve_segments :: "string list \<Rightarrow> string list \<Rightarrow> string list" where
  "resolve_segments resolved [] = resolved"
| "resolve_segments resolved (seg # segs) =
     (if seg = ''..'' then resolve_segments (butlast resolved) segs
      else if seg = ''.'' then resolve_segments resolved segs
      else resolve_segments (resolved @ [seg]) segs)"

text \<open>\<open>segments[1:-1] = filter(None, segments[1:-1])\<close>.\<close>

definition drop_empty_inner :: "string list \<Rightarrow> string list" where
  "drop_empty_inner segs =
     (if length segs < 2 then segs
      else hd segs # filter (\<lambda>x. x \<noteq> []) (butlast (tl segs)) @ [last segs])"

definition py_urljoin :: "urllib \<Rightarrow> string \<Rightarrow> string \<Rightarrow> exn + string" where
  "py_urljoin L base u =
     (if base = [] then Inr u
      else if u = [] then Inr base
      else
        (case urlparse L base [] of
           Inl e \<Rightarrow> Inl e
         | Inr b \<Rightarrow>
             (case urlparse L u (pr_scheme b) of
                Inl e \<Rightarrow> Inl e
              | Inr r \<Rightarrow>
                  if pr_scheme r \<noteq> pr_scheme b \<or> pr_scheme r \<notin> set uses_relative then Inr u
                  else if pr_scheme r \<in> set uses_netloc \<and> pr_netloc r \<noteq> []
                  then Inr (urlunparse (pr_scheme r) (pr_netloc r) (pr_path r) (pr_params r)
                              (pr_query r) (pr_fragment r))
                  else
                    (let netloc = (if pr_scheme r \<in> set uses_netloc then pr_netloc b
                                   else pr_netloc r)
                     in if pr_path r = [] \<and> pr_params r = []
                        then Inr (urlunparse (pr_scheme r) netloc (pr_path b) (pr_params b)
                                    (if pr_query r = [] then pr_query b else pr_query r)
                                    (pr_fragment r))
                        else
                          (let base_parts0 = split_on CHR ''/'' (pr_path b);
                               base_parts = (if last base_parts0 \<noteq> [] then butlast base_parts0
                                             else base_parts0);
                               segments = (if take 1 (pr_path r) = ''/''
                                           then split_on CHR ''/'' (pr_path r)
                                           else drop_empty_inner
                                                  (base_parts @ split_on CHR ''/'' (pr_path r)));
                               resolved0 = resolve_segments [] segments;
                               resolved = (if last segments = ''.'' \<or> last segments = ''..''
                                           then resolved0 @ [[]] else resolved0);
                               joined = join ''/'' resolved
                           in Inr (urlunparse (pr_scheme r) netloc
                                     (if joined \<noteq> [] then joined else ''/'')
                                     (pr_params r) (pr_query r) (pr_fragment r)))))))"

text \<open>The library with checks that accept every host.\<close>

definition lenient_urllib :: urllib where
  "lenient_urllib = \<lparr>check_bracketed_host = (\<lambda>h. None), checknetloc_nfkc = (\<lambda>n. None)\<rparr>"

section \<open>Notions of the specification\<close>

text \<open>
  The attribute from which a link or an image is built, when it has one: a non-empty
  \<open>href\<close>, and a non-empty \<open>src\<close> or else \<open>data-src\<close>.
\<close>

definition anchor_href :: "node \<Rightarrow> string option" where
  "anchor_href a = truthy_value (attr_get a ''href'' [])"

definition image_src :: "node \<Rightarrow> string option" where
  "image_src img = truthy_value (py_or (attr_get img ''src'' []) (attr_get img ''data-src'' []))"

text \<open>
  What the specification calls a well-formed absolute URL, read as the usual shape of
  one: a scheme, then \<open>://\<close>, then a non-empty host, and only printable ASCII characters
  other than the space.
\<close>

definition wellformed_absolute_url :: "string \<Rightarrow> bool" where
  "wellformed_absolute_url u =
     (CHR '':'' \<in> set u
      \<and> before CHR '':'' u \<noteq> []
      \<and> (is_upper (hd u) \<or> is_lower (hd u))
      \<and> list_all (\<lambda>c. c \<in> set scheme_chars) (before CHR '':'' u)
      \<and> take 2 (after CHR '':'' u) = ''//''
      \<and> fst (splitnetloc (after CHR '':'' u)) \<noteq> []
      \<and> list_all (\<lambda>c. 32 < (of_char c :: nat) \<and> (of_char c :: nat) < 127) u)"

text \<open>
  The identifiers of a list of sections follow the scheme \<open><type>-<runningIndex>\<close> when
  the section at position \<open>i\<close> has the identifier made of its type and of \<open>i\<close>.
\<close>

definition ids_indexed :: "Section list \<Rightarrow> bool" where
  "ids_indexed secs =
     (map section_id secs
        = map (\<lambda>(i, s). section_type s @ ''-'' @ str_nat i) (enumerate 0 secs))"

text \<open>The words that make \<open>_determine_section_type\<close> leave the generic type.\<close>

definition classification_keywords :: "string list" where
  "classification_keywords =
     [''pricing'', ''price'', ''$'', ''plan'', ''faq'', ''question'', ''answer'', ''grid'', ''gallery'']"

definition has_keyword :: "string \<Rightarrow> bool" where
  "has_keyword text = list_ex (\<lambda>word. str_in word (lower text)) classification_keywords"

section \<open>Example documents and worlds\<close>

text \<open>
  Concrete inputs on which the properties below are evaluated. The example worlds
  have a page state of two counters, the clicks on a load-more button and the number of
  the page shown; an element handle says which of the two controls it is.
\<close>

definition long_node :: node where
  "long_node = Node (replicate 1001 CHR ''x'') ''hello'' [] []"

definition short_doc :: node where
  "short_doc = Node ''<html><body><p>short text</p></body></html>'' ''short text'' []
     [(''body'', [Node ''<body><p>short text</p></body>'' ''short text'' [] []])]"

definition hello_node :: node where
  "hello_node = Node ''<p>hello</p>'' ''hello'' [] []"

definition empty_doc :: node where
  "empty_doc = Node [] [] [] []"

definition blank_doc :: node where
  "blank_doc = Node ''<html><body></body></html>'' []  []
     [(''body'', [Node ''<body></body>'' [] [] []])]"

definition js_link_node :: node where
  \<open>js_link_node =
     Node ''<section><a href="javascript:void 0">Menu</a></section>'' ''Menu'' []
       [(''a'', [Node ''<a href="javascript:void 0">Menu</a>'' ''Menu''
                   [(''href'', Some ''javascript:void 0'')] []])]\<close>

definition rel_link_node :: node where
  \<open>rel_link_node =
     Node ''<section><a href="../c">Up</a><a>No</a><img data-src="i.png" alt="I"></section>''
       ''UpNo'' []
       [(''a'', [Node ''<a href="../c">Up</a>'' ''Up'' [(''href'', Some ''../c'')] [],
                 Node ''<a>No</a>'' ''No'' [] []]),
        (''img'', [Node ''<img data-src="i.png" alt="I">'' [] 
                     [(''data-src'', Some ''i.png''), (''alt'', Some ''I'')] []])]\<close>

definition section_node :: "string \<Rightarrow> node" where
  "section_node text = Node (''<section>'' @ text @ ''</section>'') text [] []"

definition three_sections_doc :: "string \<Rightarrow> string \<Rightarrow> string \<Rightarrow> node" where
  "three_sections_doc t1 t2 t3 =
     Node (''<body>'' @ concat (map (\<lambda>t. html (section_node t)) [t1, t2, t3]) @ ''</body>'')
       (t1 @ t2 @ t3) []
       [(''section'', [section_node t1, section_node t2, section_node t3])]"

definition example_get_fails :: "string \<Rightarrow> exn + string" where
  "example_get_fails u = Inl (OtherException ''All connection attempts failed'')"

definition example_get_ok :: "string \<Rightarrow> exn + string" where
  "example_get_ok u = Inr ''<html><body><p>short text</p></body></html>''"

definition example_query :: "string \<Rightarrow> nat \<times> nat \<Rightarrow> (nat \<times> nat) \<times> (exn + bool option)" where
  \<open>example_query selector p =
     (p, Inr (if selector = ''button:has-text("Load more")'' \<and> fst p = 0 then Some True
              else if selector = ''[rel="next"]'' \<and> snd p = 0 then Some False
              else None))\<close>

definition example_click :: "bool \<Rightarrow> nat \<Rightarrow> nat \<times> nat \<Rightarrow> (nat \<times> nat) \<times> (exn + unit)" where
  "example_click h t p = ((if h then (fst p + 1, snd p) else (fst p, snd p + 1)), Inr ())"

definition example_page_url :: "nat \<times> nat \<Rightarrow> string" where
  "example_page_url p =
     (if snd p = 0 then ''http://example.com/list'' else ''http://example.com/list?page=2'')"

definition example_world :: "(string \<Rightarrow> exn + string) \<Rightarrow> node \<Rightarrow> (nat \<times> nat, bool) world" where
  "example_world get doc =
     \<lparr>http_get = get,
      HTMLParser = (\<lambda>h. doc),
      urljoin = py_urljoin lenient_urllib,
      now = ''2024-01-01T00:00:00+00:00'',
      launch = Inr (0, 0),
      goto = (\<lambda>u t p. (p, Inr ())),
      wait_for_timeout = (\<lambda>t p. (p, Inr ())),
      wait_for_load_state = (\<lambda>s t p. (p, Inr ())),
      evaluate = (\<lambda>s p. (p, Inr ())),
      query_selector = example_query,
      query_selector_all = (\<lambda>s p. (p, Inr [])),
      click = example_click,
      page_url = example_page_url,
      page_content = (\<lambda>p. (p, Inr ''<html><body><p>short text</p></body></html>'')),
      close = (\<lambda>p. Inr ())\<rparr>"

text \<open>
  The example world in which the wait after a click raises, as it does when the page is
  closed during the wait.
\<close>

definition closed_page_world :: "(nat \<times> nat, bool) world" where
  "closed_page_world =
     (example_world example_get_ok short_doc)
       \<lparr>wait_for_timeout := (\<lambda>t p. (p, Inl (OtherException ''Target page has been closed'')))\<rparr>"

text \<open>A document whose body holds only an anchor with the reference \<open>//[\<close>.\<close>

definition bad_href_body :: node where
  \<open>bad_href_body =
     Node ''<body><a href="//[">x</a></body>'' ''x'' []
       [(''a'', [Node ''<a href="//[">x</a>'' ''x'' [(''href'', Some ''//['')] []])]\<close>

definition bad_href_doc :: node where
  \<open>bad_href_doc =
     Node ''<html><body><a href="//[">x</a></body></html>'' ''x'' []
       [(''body'', [bad_href_body])]\<close>

section \<open>Properties\<close>

subsection \<open>Raw markup and its truncation\<close>

text \<open>
  Claim C2. For every section that \<open>_parse_section\<close> produces, \<open>truncated\<close> is true exactly
  when the serialised markup of the element is longer than 1000 characters; then
  \<open>rawHtml\<close> is the first 1000 characters followed by \<open>...\<close>, and otherwise \<open>rawHtml\<close> is the
  markup unchanged.
\<close>

theorem parse_section_truncation:
  assumes "parse_section uj elem sid tag_name source_url = Inr s"
  shows "truncated s = (length (html elem) > 1000)
       \<and> (truncated s \<longrightarrow> rawHtml s = take 1000 (html elem) @ ''...'')
       \<and> (\<not> truncated s \<longrightarrow> rawHtml s = html elem)"
  using assms
  by (auto simp: parse_section_def Let_def split: sum.splits)

theorem parse_section_truncation_witness:
  "(case parse_section (\<lambda>b u. Inr (b @ u)) long_node 0 ''section'' ''http://example.com/'' of
      Inl e \<Rightarrow> False
    | Inr s \<Rightarrow> truncated s \<and> rawHtml s = replicate 1000 CHR ''x'' @ ''...'')"
proof -
  obtain s where s: "parse_section (\<lambda>b u. Inr (b @ u)) long_node 0 ''section'' ''http://example.com/'' = Inr s"
    by (simp add: parse_section_def css_def long_node_def Let_def)
  from parse_section_truncation[OF s] show ?thesis
    using s by (simp add: long_node_def)
qed

subsection \<open>The rendering heuristic\<close>

lemma empty_container_list_ex:
  "empty_container parser sels =
     list_ex (\<lambda>sel. case css_first parser sel of None \<Rightarrow> False
                     | Some elem \<Rightarrow> length (text_strip elem) < 100) sels"
  by (induction sels) (auto split: option.splits)

text \<open>
  Claim C3. \<open>_needs_js_rendering\<close> is true exactly when the document has no body, or the
  stripped text of the body is shorter than 200 characters, or the markup contains one of
  the five fingerprints and one of the containers \<open>#root\<close>, \<open>#__next\<close>, \<open>#app\<close> exists
  with a stripped text shorter than 100 characters; otherwise it is false.
\<close>

theorem needs_js_rendering_rule:
  \<open>needs_js_rendering parser =
     (case css_first parser ''body'' of
        None \<Rightarrow> True
      | Some body \<Rightarrow>
          length (text_strip body) < 200
          \<or> (list_ex (\<lambda>ind. str_in ind (html parser))
                [''id="root"'', ''id="__next"'', ''id="app"'', ''data-reactroot'', ''ng-app'']
             \<and> list_ex (\<lambda>sel. case css_first parser sel of None \<Rightarrow> False
                              | Some elem \<Rightarrow> length (text_strip elem) < 100)
                  [''#root'', ''#__next'', ''#app'']))\<close>
proof (cases "css_first parser ''body''")
  case None
  then show ?thesis by (simp add: needs_js_rendering_def)
next
  case (Some body)
  then show ?thesis
    unfolding needs_js_rendering_def indicators_def empty_container_list_ex Let_def
    by (simp only: option.case if_True if_False split: if_splits) blast
qed

theorem needs_js_rendering_rule_witness:
  "needs_js_rendering short_doc"
  using needs_js_rendering_rule[of short_doc]
  by (simp add: short_doc_def css_first_def css_def)

subsection \<open>A failed static fetch\<close>

text \<open>
  Claim C5. If the static fetch raises, \<open>scrape\<close> returns a partial result: no sections,
  an empty title, the default metadata, and exactly one error of phase \<open>fetch\<close>. The
  handler of \<open>scrape\<close> adds a second error, of phase \<open>scrape\<close>, after it.
\<close>

theorem scrape_fetch_failure:
  "http_get W u = Inl e \<Longrightarrow>
     sections (snd (scrape W (init u))) = []
   \<and> title (meta (snd (scrape W (init u)))) = []
   \<and> meta (snd (scrape W (init u))) =
       \<lparr>title = [], description = [], language = ''en'', canonical = None\<rparr>
   \<and> errors (snd (scrape W (init u))) =
       [\<lparr>message = str_exn e, phase = ''fetch''\<rparr>, \<lparr>message = str_exn e, phase = ''scrape''\<rparr>]
   \<and> length (filter (\<lambda>x. phase x = ''fetch'') (errors (snd (scrape W (init u))))) = 1"
  by (simp add: scrape_def scrape_body_def fetch_static_def init_def add_error_def Let_def)

theorem scrape_fetch_failure_witness:
  "sections (snd (scrape (example_world example_get_fails short_doc) (init ''http://example.com/''))) = []
   \<and> map phase (errors (snd (scrape (example_world example_get_fails short_doc) (init ''http://example.com/''))))
       = [''fetch'', ''scrape'']"
proof -
  have h: "http_get (example_world example_get_fails short_doc) ''http://example.com/''
             = Inl (OtherException ''All connection attempts failed'')"
    by (simp add: example_world_def example_get_fails_def)
  from scrape_fetch_failure[OF h] show ?thesis by simp
qed

subsection \<open>The example world\<close>

lemma example_world_fields:
  "query_selector (example_world g d) = example_query"
  "click (example_world g d) = example_click"
  "page_url (example_world g d) = example_page_url"
  "wait_for_timeout (example_world g d) = (\<lambda>t p. (p, Inr ()))"
  "wait_for_load_state (example_world g d) = (\<lambda>s t p. (p, Inr ()))"
  "evaluate (example_world g d) = (\<lambda>s p. (p, Inr ()))"
  by (simp_all add: example_world_def)

subsection \<open>The load-more clicks\<close>

lemma load_more_attempts_clicks:
  "\<exists>k \<le> length attempts.
     clicks_performed (snd (load_more_attempts W sel attempts (p, eng)))
       = clicks_performed eng @ replicate k sel"
proof (induction attempts arbitrary: p eng)
  case Nil
  then show ?case by simp
next
  case (Cons a attempts)
  show ?case
  proof (cases "\<exists>p1 b p2 p3. query_selector W sel p = (p1, Inr (Some b))
            \<and> click W b 2000 p1 = (p2, Inr ()) \<and> wait_for_timeout W 1500 p2 = (p3, Inr ())")
    case True
    then obtain p1 b p2 p3 where h: "query_selector W sel p = (p1, Inr (Some b))"
      "click W b 2000 p1 = (p2, Inr ())" "wait_for_timeout W 1500 p2 = (p3, Inr ())" by blast
    from Cons.IH[of p3 "add_click sel eng"] obtain k where k: "k \<le> length attempts"
      "clicks_performed (snd (load_more_attempts W sel attempts (p3, add_click sel eng)))
        = clicks_performed (add_click sel eng) @ replicate k sel" by blast
    have "clicks_performed (snd (load_more_attempts W sel (a # attempts) (p, eng)))
        = clicks_performed eng @ replicate (Suc k) sel"
      using h k by (simp add: add_click_def)
    with k(1) show ?thesis by (intro exI[of _ "Suc k"]) simp
  next
    case False
    then have "clicks_performed (snd (load_more_attempts W sel (a # attempts) (p, eng)))
        = clicks_performed eng @ replicate 0 sel"
      by (auto split: prod.splits sum.splits option.splits)
    then show ?thesis by blast
  qed
qed

lemma example_world_tabs: "query_selector_all (example_world g d) = (\<lambda>s p. (p, Inr []))"
  by (simp add: example_world_def)

lemma closed_page_world_fields:
  "query_selector closed_page_world = example_query"
  "query_selector_all closed_page_world = (\<lambda>s p. (p, Inr []))"
  "click closed_page_world = example_click"
  "wait_for_timeout closed_page_world
     = (\<lambda>t p. (p, Inl (OtherException ''Target page has been closed'')))"
  by (simp_all add: closed_page_world_def example_world_def)

lemma count_list_replicate:
  "count_list (replicate k a) b = (if a = b then k else 0)"
  by (induction k) auto

lemma load_more_selectors_distinct: "distinct load_more_selectors"
  by (simp add: load_more_selectors_def)

lemma click_load_more_append:
  "click_load_more W (pre @ sel # post) st
     = click_load_more W post (load_more_attempts W sel (py_range 3) (click_load_more W pre st))"
  by (induction pre arbitrary: st) simp_all

lemma load_more_attempts_count:
  "count_list (clicks_performed (snd (load_more_attempts W sel attempts (p, eng)))) s
     \<le> count_list (clicks_performed eng) s + length attempts
   \<and> (s \<noteq> sel \<longrightarrow>
        count_list (clicks_performed (snd (load_more_attempts W sel attempts (p, eng)))) s
          = count_list (clicks_performed eng) s)"
proof -
  from load_more_attempts_clicks[of attempts W sel p eng] obtain k where
    k: "k \<le> length attempts"
    "clicks_performed (snd (load_more_attempts W sel attempts (p, eng)))
       = clicks_performed eng @ replicate k sel" by blast
  then show ?thesis by (simp add: count_list_replicate)
qed

lemma click_load_more_other:
  "s \<notin> set sels \<Longrightarrow>
   count_list (clicks_performed (snd (click_load_more W sels (p, eng)))) s
     = count_list (clicks_performed eng) s"
proof (induction sels arbitrary: p eng)
  case Nil
  then show ?case by simp
next
  case (Cons sel sels)
  obtain p1 eng1 where a: "load_more_attempts W sel (py_range 3) (p, eng) = (p1, eng1)"
    by (cases "load_more_attempts W sel (py_range 3) (p, eng)")
  from Cons.prems have ne: "s \<noteq> sel" "s \<notin> set sels" by auto
  from load_more_attempts_count[of W sel "py_range 3" p eng s] a ne(1)
  have "count_list (clicks_performed eng1) s = count_list (clicks_performed eng) s" by simp
  with Cons.IH[OF ne(2), of p1 eng1] a show ?case by simp
qed

lemma click_load_more_bound:
  "distinct sels \<Longrightarrow>
   count_list (clicks_performed (snd (click_load_more W sels (p, eng)))) s
     \<le> count_list (clicks_performed eng) s + 3"
proof (induction sels arbitrary: p eng)
  case Nil
  then show ?case by simp
next
  case (Cons sel sels)
  obtain p1 eng1 where a: "load_more_attempts W sel (py_range 3) (p, eng) = (p1, eng1)"
    by (cases "load_more_attempts W sel (py_range 3) (p, eng)")
  have len: "length (py_range 3) = 3" by (simp add: py_range_def)
  from load_more_attempts_count[of W sel "py_range 3" p eng s] a len
  have c1: "count_list (clicks_performed eng1) s \<le> count_list (clicks_performed eng) s + 3"
    and c2: "s \<noteq> sel \<longrightarrow> count_list (clicks_performed eng1) s = count_list (clicks_performed eng) s"
    by simp_all
  from Cons.prems have d: "distinct sels" "sel \<notin> set sels" by auto
  show ?case
  proof (cases "s = sel")
    case True
    with d(2) click_load_more_other[of s sels W p1 eng1] c1 a show ?thesis by simp
  next
    case False
    with c2 Cons.IH[OF d(1), of p1 eng1] a show ?thesis by simp
  qed
qed

lemma load_more_attempts_once:
  assumes "query_selector W sel p = (p1, Inr (Some b))" "click W b 2000 p1 = (p2, Inr ())"
    "wait_for_timeout W 1500 p2 = (p3, Inr ())" "query_selector W sel p3 = (p4, Inr None)"
  shows "load_more_attempts W sel (py_range 3) (p, eng) = (p4, add_click sel eng)"
proof -
  have r: "py_range 3 = [0, 1, 2]" by (simp add: py_range_def upt_rec)
  show ?thesis using assms by (simp add: r)
qed

text \<open>
  Claim C9, as stated: if the button of a load-more selector is found at the first lookup
  and is gone after one click, exactly one click is recorded for the selector. It fails
  when the wait that follows the click raises: the click is recorded only after the wait,
  and the exception ends the attempts on the selector with nothing recorded. In the world
  below the button is found, the click succeeds, a lookup after it finds nothing, and
  \<open>_perform_clicks\<close> records no click.
\<close>

theorem perform_clicks_load_more_counterexample:
  "query_selector closed_page_world (hd load_more_selectors) (0, 0) = ((0, 0), Inr (Some True))
   \<and> click closed_page_world True 2000 (0, 0) = ((1, 0), Inr ())
   \<and> query_selector closed_page_world (hd load_more_selectors) (1, 0) = ((1, 0), Inr None)
   \<and> clicks_performed
        (snd (perform_clicks closed_page_world ((0, 0), init ''http://example.com/''))) = []"
proof -
  have r: "py_range 3 = [0, 1, 2]" by (simp add: py_range_def upt_rec)
  show ?thesis
    by (simp add: perform_clicks_def tab_selectors_def load_more_selectors_def r
          closed_page_world_fields example_query_def example_click_def init_def)
qed

text \<open>
  Claim C9, amended. In \<open>_perform_clicks\<close>, when the loop reaches a load-more selector, its
  button is found at the first lookup, the click and the wait after it succeed, and the
  second lookup finds nothing, then exactly one click is recorded for that selector: the
  attempts on it end at the second lookup, and the loop goes on to the remaining
  selectors from the state of that lookup with the one click added. In general the
  load-more loop of \<open>_perform_clicks\<close> records at most 3 clicks for one selector.
\<close>

theorem perform_clicks_load_more:
  "(load_more_selectors = pre @ sel # post \<longrightarrow>
    click_load_more W pre (click_tab_selectors W tab_selectors st) = (p, eng) \<longrightarrow>
    query_selector W sel p = (p1, Inr (Some b)) \<longrightarrow> click W b 2000 p1 = (p2, Inr ()) \<longrightarrow>
    wait_for_timeout W 1500 p2 = (p3, Inr ()) \<longrightarrow> query_selector W sel p3 = (p4, Inr None) \<longrightarrow>
      perform_clicks W st = click_load_more W post (p4, add_click sel eng)
      \<and> count_list (clicks_performed (snd (perform_clicks W st))) sel
          = count_list (clicks_performed eng) sel + 1)
   \<and> count_list (clicks_performed (snd (perform_clicks W st'))) s
        \<le> count_list (clicks_performed (snd (click_tab_selectors W tab_selectors st'))) s + 3"
proof -
  have A: "load_more_selectors = pre @ sel # post \<longrightarrow>
    click_load_more W pre (click_tab_selectors W tab_selectors st) = (p, eng) \<longrightarrow>
    query_selector W sel p = (p1, Inr (Some b)) \<longrightarrow> click W b 2000 p1 = (p2, Inr ()) \<longrightarrow>
    wait_for_timeout W 1500 p2 = (p3, Inr ()) \<longrightarrow> query_selector W sel p3 = (p4, Inr None) \<longrightarrow>
      perform_clicks W st = click_load_more W post (p4, add_click sel eng)
      \<and> count_list (clicks_performed (snd (perform_clicks W st))) sel
          = count_list (clicks_performed eng) sel + 1"
  proof (intro impI)
    assume l: "load_more_selectors = pre @ sel # post"
      and s: "click_load_more W pre (click_tab_selectors W tab_selectors st) = (p, eng)"
      and h: "query_selector W sel p = (p1, Inr (Some b))" "click W b 2000 p1 = (p2, Inr ())"
        "wait_for_timeout W 1500 p2 = (p3, Inr ())" "query_selector W sel p3 = (p4, Inr None)"
    have 1: "perform_clicks W st = click_load_more W post (p4, add_click sel eng)"
      unfolding perform_clicks_def l click_load_more_append s
      using load_more_attempts_once[OF h] by simp
    have "distinct (pre @ sel # post)" using load_more_selectors_distinct unfolding l .
    then have "sel \<notin> set post" by simp
    from click_load_more_other[OF this, of W p4 "add_click sel eng"]
    have 2: "count_list (clicks_performed (snd (perform_clicks W st))) sel
          = count_list (clicks_performed eng) sel + 1"
      unfolding 1 by (simp add: add_click_def)
    from 1 2 show "perform_clicks W st = click_load_more W post (p4, add_click sel eng)
      \<and> count_list (clicks_performed (snd (perform_clicks W st))) sel
          = count_list (clicks_performed eng) sel + 1" by (rule conjI)
  qed
  obtain q e where t: "click_tab_selectors W tab_selectors st' = (q, e)"
    by (cases "click_tab_selectors W tab_selectors st'")
  have B: "count_list (clicks_performed (snd (perform_clicks W st'))) s
        \<le> count_list (clicks_performed (snd (click_tab_selectors W tab_selectors st'))) s + 3"
    unfolding perform_clicks_def t
    using click_load_more_bound[OF load_more_selectors_distinct, of W q e s] by simp
  from A B show ?thesis by (rule conjI)
qed

theorem perform_clicks_load_more_witness:
  "perform_clicks (example_world example_get_ok short_doc) ((0, 0), init ''http://example.com/'')
     = click_load_more (example_world example_get_ok short_doc) (tl load_more_selectors)
         ((1, 0), add_click (hd load_more_selectors) (init ''http://example.com/''))
   \<and> count_list (clicks_performed (snd (perform_clicks (example_world example_get_ok short_doc)
         ((0, 0), init ''http://example.com/'')))) (hd load_more_selectors) = 1"
proof -
  let ?W = "example_world example_get_ok short_doc"
  let ?e = "init ''http://example.com/''"
  have l: "load_more_selectors = [] @ hd load_more_selectors # tl load_more_selectors"
    by (simp add: load_more_selectors_def)
  have t: "click_load_more ?W [] (click_tab_selectors ?W tab_selectors ((0, 0), ?e)) = ((0, 0), ?e)"
    by (simp add: tab_selectors_def example_world_tabs)
  have q1: "query_selector ?W (hd load_more_selectors) (0, 0) = ((0, 0), Inr (Some True))"
    by (simp add: example_world_fields example_query_def load_more_selectors_def)
  have c: "click ?W True 2000 (0, 0) = ((1, 0), Inr ())"
    by (simp add: example_world_fields example_click_def)
  have w: "wait_for_timeout ?W 1500 (1, 0) = ((1, 0), Inr ())"
    by (simp add: example_world_fields)
  have q2: "query_selector ?W (hd load_more_selectors) (1, 0) = ((1, 0), Inr None)"
    by (simp add: example_world_fields example_query_def load_more_selectors_def)
  have z: "count_list (clicks_performed ?e) (hd load_more_selectors) = 0"
    by (simp add: init_def)
  note th = perform_clicks_load_more[of "[]" "hd load_more_selectors" "tl load_more_selectors" ?W
      "((0, 0), ?e)" "(0, 0)" ?e "(0, 0)" True "(1, 0)" "(1, 0)" "(1, 0)",
      THEN conjunct1, rule_format, OF l t q1 c w q2]
  from th have a: "perform_clicks ?W ((0, 0), ?e)
      = click_load_more ?W (tl load_more_selectors) ((1, 0), add_click (hd load_more_selectors) ?e)"
    by (rule conjunct1)
  from th have b: "count_list (clicks_performed (snd (perform_clicks ?W ((0, 0), ?e))))
        (hd load_more_selectors)
      = count_list (clicks_performed ?e) (hd load_more_selectors) + 1"
    by (rule conjunct2)
  from b z have b': "count_list (clicks_performed (snd (perform_clicks ?W ((0, 0), ?e))))
        (hd load_more_selectors) = 1" by simp
  from a b' show ?thesis by (rule conjI)
qed

subsection \<open>The visited pages\<close>

lemma try_next_selectors_pages:
  "try_next_selectors W sels (p, eng, cur, att) = (p', eng', cur', att') \<Longrightarrow>
   \<exists>new. eng' = eng\<lparr>visited_pages := visited_pages eng @ new\<rparr> \<and> distinct new
       \<and> set new \<inter> set (visited_pages eng) = {}
       \<and> (new \<noteq> [] \<longrightarrow> hd new \<noteq> cur) \<and> (new = [] \<longrightarrow> cur' = cur \<and> att' = att)"
proof (induction sels arbitrary: p eng cur att)
  case Nil
  then show ?case by (intro exI[of _ "[]"]) simp
next
  case (Cons sel sels)
  let ?cont = "\<lambda>q. try_next_selectors W sels (q, eng, cur, att) = (p', eng', cur', att')"
  let ?app = "\<lambda>q n. n \<noteq> cur \<and> n \<notin> set (visited_pages eng) \<and>
      ((p', eng', cur', att') = (q, eng\<lparr>visited_pages := visited_pages eng @ [n]\<rparr>, n, True)
       \<or> try_next_selectors W sels (q, eng\<lparr>visited_pages := visited_pages eng @ [n]\<rparr>, n, True)
            = (p', eng', cur', att'))"
  from Cons.prems consider
      (cont) q where "?cont q"
    | (stop) q where "(p', eng', cur', att') = (q, eng, cur, att)"
    | (app) q n where "?app q n"
    by (auto simp: Let_def split: prod.splits sum.splits option.splits if_splits)
  then show ?case
  proof cases
    case cont
    then show ?thesis by (rule Cons.IH)
  next
    case stop
    then show ?thesis by (intro exI[of _ "[]"]) simp
  next
    case app
    then have n: "n \<noteq> cur" "n \<notin> set (visited_pages eng)" by auto
    from app consider
        (a) "(p', eng', cur', att') = (q, eng\<lparr>visited_pages := visited_pages eng @ [n]\<rparr>, n, True)"
      | (b) "try_next_selectors W sels (q, eng\<lparr>visited_pages := visited_pages eng @ [n]\<rparr>, n, True)
            = (p', eng', cur', att')" by blast
    then show ?thesis
    proof cases
      case a
      with n show ?thesis by (intro exI[of _ "[n]"]) simp
    next
      case b
      from Cons.IH[OF b] obtain new where new:
        "eng' = eng\<lparr>visited_pages := visited_pages eng @ [n]\<rparr>
                  \<lparr>visited_pages := visited_pages (eng\<lparr>visited_pages := visited_pages eng @ [n]\<rparr>) @ new\<rparr>"
        "distinct new"
        "set new \<inter> set (visited_pages (eng\<lparr>visited_pages := visited_pages eng @ [n]\<rparr>)) = {}"
        by blast
      with n show ?thesis by (intro exI[of _ "n # new"]) auto
    qed
  qed
qed

lemma paginate_pages:
  "paginate W ds (p, eng, cur, att) = (p', eng', cur', att') \<Longrightarrow>
   \<exists>new. eng' = eng\<lparr>visited_pages := visited_pages eng @ new\<rparr> \<and> distinct new
       \<and> set new \<inter> set (visited_pages eng) = {}
       \<and> (new \<noteq> [] \<longrightarrow> hd new \<noteq> cur) \<and> (new = [] \<longrightarrow> cur' = cur \<and> att' = att)"
proof (induction ds arbitrary: p eng cur att)
  case Nil
  then show ?case by (intro exI[of _ "[]"]) simp
next
  case (Cons d ds)
  obtain p1 eng1 cur1 att1 where s1:
    "try_next_selectors W next_selectors (p, eng, cur, att) = (p1, eng1, cur1, att1)"
    by (metis prod_cases4)
  from try_next_selectors_pages[OF s1] obtain new1 where new1:
    "eng1 = eng\<lparr>visited_pages := visited_pages eng @ new1\<rparr>" "distinct new1"
    "set new1 \<inter> set (visited_pages eng) = {}" "new1 \<noteq> [] \<longrightarrow> hd new1 \<noteq> cur"
    "new1 = [] \<longrightarrow> cur1 = cur \<and> att1 = att" by blast
  show ?case
  proof (cases att1)
    case False
    with Cons.prems s1 have "(p', eng', cur', att') = (p1, eng1, cur1, att1)" by simp
    with new1 show ?thesis by (intro exI[of _ new1]) auto
  next
    case True
    with Cons.prems s1 have "paginate W ds (p1, eng1, cur1, att1) = (p', eng', cur', att')" by simp
    from Cons.IH[OF this] obtain new2 where new2:
      "eng' = eng1\<lparr>visited_pages := visited_pages eng1 @ new2\<rparr>" "distinct new2"
      "set new2 \<inter> set (visited_pages eng1) = {}" "new2 \<noteq> [] \<longrightarrow> hd new2 \<noteq> cur1"
      "new2 = [] \<longrightarrow> cur' = cur1 \<and> att' = att1" by blast
    from new1 new2 show ?thesis
      by (intro exI[of _ "new1 @ new2"]) (cases new1; auto)
  qed
qed


lemma scroll_pages: "visited_pages (snd (scroll W is (p, eng))) = visited_pages eng"
  by (induction "is" arbitrary: p eng) (auto split: prod.splits sum.splits)

lemma click_tabs_pages:
  "visited_pages (snd (click_tabs W sel i tabs (p, eng))) = visited_pages eng"
  by (induction tabs arbitrary: p eng i) (auto simp: add_click_def split: prod.splits sum.splits)

lemma click_tab_selectors_pages:
  "visited_pages (snd (click_tab_selectors W sels (p, eng))) = visited_pages eng"
  by (induction sels arbitrary: p eng) (auto simp: click_tabs_pages split: prod.splits sum.splits)

lemma load_more_attempts_pages:
  "visited_pages (snd (load_more_attempts W sel as (p, eng))) = visited_pages eng"
  by (induction as arbitrary: p eng)
     (auto simp: add_click_def split: prod.splits sum.splits option.splits)

lemma click_load_more_pages:
  "visited_pages (snd (click_load_more W sels (p, eng))) = visited_pages eng"
proof (induction sels arbitrary: p eng)
  case Nil
  then show ?case by simp
next
  case (Cons sel sels)
  obtain p1 eng1 where s: "load_more_attempts W sel (py_range 3) (p, eng) = (p1, eng1)"
    by (cases "load_more_attempts W sel (py_range 3) (p, eng)")
  have "visited_pages eng1 = visited_pages eng"
    using load_more_attempts_pages[of W sel "py_range 3" p eng] s by simp
  with Cons.IH[of p1 eng1] s show ?case by simp
qed

lemma perform_clicks_pages:
  "visited_pages (snd (perform_clicks W (p, eng))) = visited_pages eng"
proof -
  obtain p1 eng1 where s: "click_tab_selectors W tab_selectors (p, eng) = (p1, eng1)"
    by (cases "click_tab_selectors W tab_selectors (p, eng)")
  have "visited_pages eng1 = visited_pages eng"
    using click_tab_selectors_pages[of W tab_selectors p eng] s by simp
  with click_load_more_pages[of W load_more_selectors p1 eng1] s show ?thesis
    by (simp add: perform_clicks_def)
qed

lemma perform_scroll_pagination_pages:
  "perform_scroll_pagination W (p, eng) = (p', eng') \<Longrightarrow>
   \<exists>new. visited_pages eng' = visited_pages eng @ new \<and> distinct new
       \<and> set new \<inter> set (visited_pages eng) = {}
       \<and> (new \<noteq> [] \<longrightarrow> hd new \<noteq> page_url W p)"
proof -
  assume a: "perform_scroll_pagination W (p, eng) = (p', eng')"
  obtain p1 eng1 cur1 att1 where s1:
    "paginate W (py_range 3) (p, eng, page_url W p, False) = (p1, eng1, cur1, att1)"
    by (metis prod_cases4)
  from paginate_pages[OF s1] obtain new where new:
    "eng1 = eng\<lparr>visited_pages := visited_pages eng @ new\<rparr>" "distinct new"
    "set new \<inter> set (visited_pages eng) = {}" "new \<noteq> [] \<longrightarrow> hd new \<noteq> page_url W p"
    by blast
  have "visited_pages eng' = visited_pages eng1"
    using a s1 scroll_pages[of W "py_range 3" p1 eng1]
    by (auto simp: perform_scroll_pagination_def split: if_splits)
  with new show ?thesis by (intro exI[of _ new]) simp
qed



lemma pages_inv_append:
  "visited_pages eng \<noteq> [] \<and> hd (visited_pages eng) = u \<and> distinct (visited_pages eng) \<Longrightarrow>
   visited_pages eng' = visited_pages eng @ new \<Longrightarrow> distinct new \<Longrightarrow>
   set new \<inter> set (visited_pages eng) = {} \<Longrightarrow>
   visited_pages eng' \<noteq> [] \<and> hd (visited_pages eng') = u \<and> distinct (visited_pages eng')"
  by auto

lemma render_body_pages:
  assumes inv: "visited_pages eng \<noteq> [] \<and> hd (visited_pages eng) = u \<and> distinct (visited_pages eng)"
    and rb: "render_body W p0 eng = (p, eng', r)"
  shows "visited_pages eng' \<noteq> [] \<and> hd (visited_pages eng') = u \<and> distinct (visited_pages eng')"
proof -
  obtain p1 r1 where g: "goto W (eng_url eng) 30000 p0 = (p1, r1)"
    by (cases "goto W (eng_url eng) 30000 p0")
  show ?thesis
  proof (cases r1)
    case (Inl e)
    with rb g have "eng' = eng" by (simp add: render_body_def)
    with inv show ?thesis by simp
  next
    case r1: (Inr u1)
    obtain p2 r2 where w: "wait_for_timeout W 2000 p1 = (p2, r2)"
      by (cases "wait_for_timeout W 2000 p1")
    show ?thesis
    proof (cases r2)
      case (Inl e)
      with rb g r1 w have "eng' = eng" by (simp add: render_body_def)
      with inv show ?thesis by simp
    next
      case r2: (Inr u2)
      obtain p3 eng3 where c: "perform_clicks W (remove_noise W noise_selectors p2, eng) = (p3, eng3)"
        by (cases "perform_clicks W (remove_noise W noise_selectors p2, eng)")
      obtain p4 eng4 where s: "perform_scroll_pagination W (p3, eng3) = (p4, eng4)"
        by (cases "perform_scroll_pagination W (p3, eng3)")
      obtain p5 r5 where pc: "page_content W p4 = (p5, r5)"
        by (cases "page_content W p4")
      have v3: "visited_pages eng3 = visited_pages eng"
        using perform_clicks_pages[of W "remove_noise W noise_selectors p2" eng] c by simp
      from perform_scroll_pagination_pages[OF s] obtain new where new:
        "visited_pages eng4 = visited_pages eng3 @ new" "distinct new"
        "set new \<inter> set (visited_pages eng3) = {}" by blast
      have i4: "visited_pages eng4 \<noteq> [] \<and> hd (visited_pages eng4) = u \<and> distinct (visited_pages eng4)"
        using pages_inv_append[of eng3 u eng4 new] inv new v3 by simp
      have "eng' = eng4"
        using rb g r1 w r2 c s pc by (cases r5; cases "close W p5"; simp add: render_body_def)
      with i4 show ?thesis by simp
    qed
  qed
qed

lemma fetch_with_playwright_pages:
  assumes inv: "visited_pages eng \<noteq> [] \<and> hd (visited_pages eng) = u \<and> distinct (visited_pages eng)"
    and fp: "fetch_with_playwright W eng = (eng', r)"
  shows "visited_pages eng' \<noteq> [] \<and> hd (visited_pages eng') = u \<and> distinct (visited_pages eng')"
proof (cases "launch W")
  case (Inl e)
  with assms show ?thesis by (simp add: fetch_with_playwright_def)
next
  case l: (Inr p0)
  obtain p eng1 r1 where b: "render_body W p0 eng = (p, eng1, r1)" by (metis prod_cases3)
  from render_body_pages[OF inv b]
  have i1: "visited_pages eng1 \<noteq> [] \<and> hd (visited_pages eng1) = u \<and> distinct (visited_pages eng1)" .
  have "visited_pages eng' = visited_pages eng1"
  proof (cases r1)
    case (Inr h)
    with fp l b show ?thesis by (simp add: fetch_with_playwright_def)
  next
    case e: (Inl e)
    obtain p5 r5 where pc: "page_content W p = (p5, r5)" by (cases "page_content W p")
    show ?thesis
      using fp l b e pc
      by (cases e; cases r5; cases "close W p5"; cases "close W p";
          simp add: fetch_with_playwright_def add_error_def Let_def; auto)
  qed
  with i1 show ?thesis by simp
qed


lemma scrape_body_pages:
  assumes inv: "visited_pages eng \<noteq> [] \<and> hd (visited_pages eng) = u \<and> distinct (visited_pages eng)"
    and sb: "scrape_body W eng = (eng', r)"
  shows "visited_pages eng' \<noteq> [] \<and> hd (visited_pages eng') = u \<and> distinct (visited_pages eng')
       \<and> (\<forall>res. r = Inr res \<longrightarrow> pages (interactions res) = visited_pages eng')"
proof -
  have tail: "\<And>eng3 parser.
     (case extract_meta parser of
        Inl e \<Rightarrow> (eng3, Inl e)
      | Inr m \<Rightarrow>
          (case extract_sections (urljoin W) parser (eng_url eng3) of
             Inl e \<Rightarrow> (eng3, Inl e)
           | Inr secs \<Rightarrow>
               (eng3, Inr \<lparr>url = eng_url eng3, scrapedAt = now W, meta = m, sections = secs,
                           interactions = interactions_of eng3, errors = eng_errors eng3\<rparr>)))
       = (eng', r) \<Longrightarrow>
     eng' = eng3 \<and> (\<forall>res. r = Inr res \<longrightarrow> pages (interactions res) = visited_pages eng3)"
  proof -
    fix eng3 parser
    assume a: "(case extract_meta parser of
        Inl e \<Rightarrow> (eng3, Inl e)
      | Inr m \<Rightarrow>
          (case extract_sections (urljoin W) parser (eng_url eng3) of
             Inl e \<Rightarrow> (eng3, Inl e)
           | Inr secs \<Rightarrow>
               (eng3, Inr \<lparr>url = eng_url eng3, scrapedAt = now W, meta = m, sections = secs,
                           interactions = interactions_of eng3, errors = eng_errors eng3\<rparr>)))
       = (eng', r)"
    show "eng' = eng3 \<and> (\<forall>res. r = Inr res \<longrightarrow> pages (interactions res) = visited_pages eng3)"
    proof (cases "extract_meta parser")
      case (Inl e)
      with a show ?thesis by auto
    next
      case m: (Inr m)
      show ?thesis
      proof (cases "extract_sections (urljoin W) parser (eng_url eng3)")
        case (Inl e)
        with a m show ?thesis by auto
      next
        case (Inr secs)
        with a m show ?thesis by (auto simp: interactions_of_def)
      qed
    qed
  qed
  show ?thesis
  proof (cases "http_get W (eng_url eng)")
    case (Inl e)
    with sb have "eng' = add_error (str_exn e) ''fetch'' eng" "r = Inl e"
      by (simp_all add: scrape_body_def fetch_static_def)
    with inv show ?thesis by (simp add: add_error_def)
  next
    case h: (Inr h)
    show ?thesis
    proof (cases "needs_js_rendering (HTMLParser W h)")
      case False
      with sb h have "(case extract_meta (HTMLParser W h) of
        Inl e \<Rightarrow> (eng, Inl e)
      | Inr m \<Rightarrow>
          (case extract_sections (urljoin W) (HTMLParser W h) (eng_url eng) of
             Inl e \<Rightarrow> (eng, Inl e)
           | Inr secs \<Rightarrow>
               (eng, Inr \<lparr>url = eng_url eng, scrapedAt = now W, meta = m, sections = secs,
                           interactions = interactions_of eng, errors = eng_errors eng\<rparr>)))
       = (eng', r)"
        by (simp add: scrape_body_def fetch_static_def)
      from tail[OF this] inv show ?thesis by simp
    next
      case True
      let ?eng1 = "add_error ''Static content insufficient, using JS rendering''
                                ''detection'' (eng\<lparr>strategy := ''js''\<rparr>)"
      obtain eng2 r2 where f: "fetch_with_playwright W ?eng1 = (eng2, r2)"
        by (cases "fetch_with_playwright W ?eng1")
      have "visited_pages ?eng1 \<noteq> [] \<and> hd (visited_pages ?eng1) = u \<and> distinct (visited_pages ?eng1)"
        using inv by (simp add: add_error_def)
      from fetch_with_playwright_pages[OF this f]
      have i2: "visited_pages eng2 \<noteq> [] \<and> hd (visited_pages eng2) = u \<and> distinct (visited_pages eng2)" .
      have "eng' = eng2 \<and> (\<forall>res. r = Inr res \<longrightarrow> pages (interactions res) = visited_pages eng2)"
      proof (cases r2)
        case (Inl e)
        with sb h True f have "eng' = eng2" "r = Inl e"
          by (simp_all add: scrape_body_def fetch_static_def)
        then show ?thesis by simp
      next
        case (Inr rendered)
        with sb h True f have "(case extract_meta (HTMLParser W rendered) of
          Inl e \<Rightarrow> (eng2, Inl e)
        | Inr m \<Rightarrow>
            (case extract_sections (urljoin W) (HTMLParser W rendered) (eng_url eng2) of
               Inl e \<Rightarrow> (eng2, Inl e)
             | Inr secs \<Rightarrow>
                 (eng2, Inr \<lparr>url = eng_url eng2, scrapedAt = now W, meta = m, sections = secs,
                             interactions = interactions_of eng2, errors = eng_errors eng2\<rparr>)))
         = (eng', r)"
          by (simp add: scrape_body_def fetch_static_def)
        from tail[OF this] show ?thesis .
      qed
      with i2 show ?thesis by simp
    qed
  qed
qed

text \<open>
  Claim C6. In every result of \<open>scrape\<close>, \<open>pages\<close> starts with the requested URL and has no
  duplicates. The pagination only appends to the visited pages: the URLs it adds are
  distinct, none of them was visited before, and the first one differs from the URL of the
  page when the pagination starts.
\<close>

theorem scrape_pages:
  "(\<exists>rest. pages (interactions (snd (scrape W (init u)))) = u # rest \<and> distinct (u # rest))
   \<and> (perform_scroll_pagination W (p, eng) = (p', eng') \<longrightarrow>
        (\<exists>new. visited_pages eng' = visited_pages eng @ new \<and> distinct new
           \<and> set new \<inter> set (visited_pages eng) = {}
           \<and> (new \<noteq> [] \<longrightarrow> hd new \<noteq> page_url W p)))"
proof -
  obtain eng1 r where b: "scrape_body W (init u) = (eng1, r)" by (cases "scrape_body W (init u)")
  have "visited_pages (init u) \<noteq> [] \<and> hd (visited_pages (init u)) = u \<and> distinct (visited_pages (init u))"
    by (simp add: init_def)
  from scrape_body_pages[OF this b]
  have i: "visited_pages eng1 \<noteq> [] \<and> hd (visited_pages eng1) = u \<and> distinct (visited_pages eng1)"
    and res: "\<forall>res. r = Inr res \<longrightarrow> pages (interactions res) = visited_pages eng1" by blast+
  have "pages (interactions (snd (scrape W (init u)))) = visited_pages eng1"
  proof (cases r)
    case (Inl e)
    with b show ?thesis by (simp add: scrape_def add_error_def interactions_of_def Let_def)
  next
    case (Inr res')
    with b res show ?thesis by (simp add: scrape_def)
  qed
  with i have 1: "\<exists>rest. pages (interactions (snd (scrape W (init u)))) = u # rest \<and> distinct (u # rest)"
    by (cases "visited_pages eng1") auto
  have 2: "perform_scroll_pagination W (p, eng) = (p', eng') \<longrightarrow>
        (\<exists>new. visited_pages eng' = visited_pages eng @ new \<and> distinct new
           \<and> set new \<inter> set (visited_pages eng) = {}
           \<and> (new \<noteq> [] \<longrightarrow> hd new \<noteq> page_url W p))"
    using perform_scroll_pagination_pages[of W p eng p' eng'] by blast
  from 1 2 show ?thesis by (rule conjI)
qed

lemma try_next_none:
  "query_selector W sel p = (p1, Inr None) \<Longrightarrow>
   try_next_selectors W (sel # sels) (p, eng, cur, att)
     = try_next_selectors W sels (p1, eng, cur, att)"
  by simp

lemma try_next_new:
  "query_selector W sel p = (p1, Inr (Some h)) \<Longrightarrow> click W h 3000 p1 = (p2, Inr ()) \<Longrightarrow>
   wait_for_load_state W ''networkidle'' 5000 p2 = (p3, Inr ()) \<Longrightarrow>
   page_url W p3 \<noteq> cur \<Longrightarrow> page_url W p3 \<notin> set (visited_pages eng) \<Longrightarrow>
   wait_for_timeout W 1000 p3 = (p4, Inr ()) \<Longrightarrow>
   try_next_selectors W (sel # sels) (p, eng, cur, att)
     = (p4, eng\<lparr>visited_pages := visited_pages eng @ [page_url W p3]\<rparr>, page_url W p3, True)"
  by (simp add: Let_def)

lemma scroll_ok:
  "evaluate W ''window.scrollTo(0, document.body.scrollHeight)'' p = (p1, Inr ()) \<Longrightarrow>
   wait_for_timeout W 2000 p1 = (p2, Inr ()) \<Longrightarrow>
   scroll W (i # is) (p, eng) = scroll W is (p2, eng\<lparr>scroll_count := scroll_count eng + 1\<rparr>)"
  by simp

lemma example_round1:
  "cur \<noteq> ''http://example.com/list?page=2'' \<Longrightarrow>
   ''http://example.com/list?page=2'' \<notin> set (visited_pages eng) \<Longrightarrow>
   try_next_selectors (example_world g d) next_selectors ((c, 0), eng, cur, att)
   = ((c, Suc 0), eng\<lparr>visited_pages := visited_pages eng @ [''http://example.com/list?page=2'']\<rparr>,
      ''http://example.com/list?page=2'', True)"
  by (simp add: next_selectors_def example_world_fields example_query_def example_click_def
        example_page_url_def try_next_none
        try_next_new[where ?p1.0="(c,0)" and h=False and ?p2.0="(c,Suc 0)" and ?p3.0="(c,Suc 0)"
                       and ?p4.0="(c,Suc 0)"]
        del: try_next_selectors.simps(2))

lemma example_round2:
  "try_next_selectors (example_world g d) next_selectors ((c, Suc n), eng, cur, att)
     = ((c, Suc n), eng, cur, att)"
  by (simp add: next_selectors_def example_world_fields example_query_def try_next_none
        del: try_next_selectors.simps(2))

lemma example_pagination:
  "perform_scroll_pagination (example_world example_get_ok short_doc)
      ((1, 0), init ''http://example.com/'')
     = ((1, 1), (init ''http://example.com/'')
          \<lparr>visited_pages := [''http://example.com/'', ''http://example.com/list?page=2''],
           scroll_count := 3\<rparr>)"
  by (simp add: perform_scroll_pagination_def py_range_def upt_rec
        example_round1 example_round2 example_world_fields example_page_url_def
        scroll_ok init_def
        del: try_next_selectors.simps(2) scroll.simps(2))

theorem scrape_pages_witness:
  "perform_scroll_pagination (example_world example_get_ok short_doc)
      ((1, 0), init ''http://example.com/'')
     = ((1, 1), (init ''http://example.com/'')
          \<lparr>visited_pages := [''http://example.com/'', ''http://example.com/list?page=2''],
           scroll_count := 3\<rparr>)
   \<and> hd (pages (interactions (snd (scrape (example_world example_get_ok short_doc)
                                      (init ''http://example.com/''))))) = ''http://example.com/''
   \<and> distinct (pages (interactions (snd (scrape (example_world example_get_ok short_doc)
                                      (init ''http://example.com/'')))))
   \<and> ''http://example.com/list?page=2''
        \<noteq> page_url (example_world example_get_ok short_doc) (1, 0)"
proof -
  let ?W = "example_world example_get_ok short_doc"
  let ?u = "''http://example.com/''"
  let ?E = "(init ?u)\<lparr>visited_pages := [?u, ''http://example.com/list?page=2''],
                      scroll_count := 3\<rparr>"
  note t = scrape_pages[of ?W ?u "(1, 0)" "init ?u" "(1, 1)" ?E]
  from t obtain rest where r: "pages (interactions (snd (scrape ?W (init ?u)))) = ?u # rest"
    "distinct (?u # rest)" by blast
  from t example_pagination obtain new where n:
    "visited_pages ?E = visited_pages (init ?u) @ new"
    "new \<noteq> [] \<longrightarrow> hd new \<noteq> page_url ?W (1, 0)" by blast
  from n(1) have "new = [''http://example.com/list?page=2'']" by (simp add: init_def)
  with n(2) have "''http://example.com/list?page=2'' \<noteq> page_url ?W (1, 0)" by simp
  with r example_pagination show ?thesis by simp
qed

subsection \<open>Classification and labels\<close>

lemma parse_section_classified:
  "parse_section uj elem sid tag_name su = Inr s \<Longrightarrow>
     section_type s = determine_section_type tag_name (headings (content s)) (content_text (content s))
   \<and> label s = generate_label (headings (content s)) (content_text (content s)) (section_type s)"
  by (auto simp: parse_section_def Let_def split: sum.splits)

text \<open>
  Claim C8. Classification and labelling depend only on the tag name, the headings and
  the flattened text: two runs of \<open>_parse_section\<close>, on any elements, indices and source
  URLs, that extract the same headings and text under the same tag give the same type and
  the same label, and classifying the extracted content again gives the type and the label
  of the section.
\<close>

theorem classification_deterministic:
  assumes "parse_section uj elem sid tag_name su = Inr s"
    and "parse_section uj' elem' sid' tag_name su' = Inr s'"
    and "headings (content s) = headings (content s')"
    and "content_text (content s) = content_text (content s')"
  shows "section_type s = section_type s' \<and> label s = label s'
       \<and> determine_section_type tag_name (headings (content s)) (content_text (content s))
           = section_type s
       \<and> generate_label (headings (content s)) (content_text (content s)) (section_type s)
           = label s"
  using parse_section_classified[OF assms(1)] parse_section_classified[OF assms(2)] assms(3,4)
  by simp

theorem classification_deterministic_witness:
  "(case (parse_section (py_urljoin lenient_urllib) long_node 0 ''section'' ''http://example.com/'',
          parse_section (py_urljoin lenient_urllib) hello_node 7 ''section'' ''http://example.org/'') of
      (Inr s, Inr s') \<Rightarrow> section_type s = section_type s' \<and> label s = label s'
    | _ \<Rightarrow> False)"
proof -
  obtain s where s: "parse_section (py_urljoin lenient_urllib) long_node 0 ''section''
      ''http://example.com/'' = Inr s" "headings (content s) = []" "content_text (content s) = ''hello''"
    by (simp add: parse_section_def css_def long_node_def Let_def)
  obtain s' where s': "parse_section (py_urljoin lenient_urllib) hello_node 7 ''section''
      ''http://example.org/'' = Inr s'" "headings (content s') = []" "content_text (content s') = ''hello''"
    by (simp add: parse_section_def css_def hello_node_def Let_def)
  from classification_deterministic[OF s(1) s'(1)] s s' show ?thesis by simp
qed

subsection \<open>The body fallback\<close>

lemma extract_sections_nonempty:
  "extract_sections uj parser su = Inr secs \<Longrightarrow> secs \<noteq> []"
  by (auto simp: extract_sections_def split: sum.splits if_splits)

text \<open>
  Claim C10, as stated: with a body and two empty tiers, \<open>_extract_sections\<close> returns
  exactly one section built from the body. It fails when building that section raises:
  for a body whose only anchor has the reference \<open>//[\<close>, \<open>urljoin\<close> raises a \<open>ValueError\<close>,
  the fallback has no handler, and \<open>_extract_sections\<close> raises instead of returning.
\<close>

theorem body_fallback_counterexample:
  "css_first bad_href_doc ''body'' = Some bad_href_body
   \<and> semantic_tier (py_urljoin lenient_urllib) bad_href_doc ''http://example.com/''
        semantic_selectors ([], 0) = Inr ([], 0)
   \<and> div_tier (py_urljoin lenient_urllib) ''http://example.com/''
        (take 10 (css bad_href_doc ''body > div'')) ([], 0) = Inr ([], 0)
   \<and> extract_sections (py_urljoin lenient_urllib) bad_href_doc ''http://example.com/''
        = Inl (ValueError ''Invalid IPv6 URL'')"
  by code_simp

text \<open>
  Claim C10, amended. If the document has a body, the semantic tier and the div tier both
  leave the list of sections empty, and the section of the body is built without an
  exception, \<open>_extract_sections\<close> returns exactly that one section, whatever its text is:
  the fallback applies no test on the text, and for the document with an empty body the
  result is one section whose text is the empty string.
\<close>

theorem body_fallback:
  "(css_first parser ''body'' = Some body \<longrightarrow>
    semantic_tier uj parser su semantic_selectors ([], 0) = Inr ([], n) \<longrightarrow>
    div_tier uj su (take 10 (css parser ''body > div'')) ([], n) = Inr ([], m) \<longrightarrow>
    parse_section uj body 0 ''section'' su = Inr s \<longrightarrow>
      extract_sections uj parser su = Inr [s] \<and> content_text (content s) = text_strip body)
   \<and> (\<exists>s'. extract_sections (py_urljoin lenient_urllib) blank_doc ''http://example.com/'' = Inr [s']
           \<and> content_text (content s') = [])"
proof -
  have gen: "\<And>parser body uj su n m s. css_first parser ''body'' = Some body \<Longrightarrow>
    semantic_tier uj parser su semantic_selectors ([], 0) = Inr ([], n) \<Longrightarrow>
    div_tier uj su (take 10 (css parser ''body > div'')) ([], n) = Inr ([], m) \<Longrightarrow>
    parse_section uj body 0 ''section'' su = Inr s \<Longrightarrow>
      extract_sections uj parser su = Inr [s] \<and> content_text (content s) = text_strip body"
  proof -
    fix parser body uj su n m s
    assume a: "css_first parser ''body'' = Some body"
      "semantic_tier uj parser su semantic_selectors ([], 0) = Inr ([], n)"
      "div_tier uj su (take 10 (css parser ''body > div'')) ([], n) = Inr ([], m)"
      "parse_section uj body 0 ''section'' su = Inr s"
    have 1: "extract_sections uj parser su = Inr [s]"
      using a by (simp add: extract_sections_def body_tier_def)
    have 2: "content_text (content s) = text_strip body"
      using a(4) by (auto simp: parse_section_def Let_def split: sum.splits)
    from 1 2 show "extract_sections uj parser su = Inr [s] \<and> content_text (content s) = text_strip body"
      by simp
  qed
  let ?uj = "py_urljoin lenient_urllib"
  let ?b = "Node ''<body></body>'' [] [] []"
  have b: "css_first blank_doc ''body'' = Some ?b"
    by (simp add: css_first_def css_def blank_doc_def)
  have st: "semantic_tier ?uj blank_doc ''http://example.com/'' semantic_selectors ([], 0) = Inr ([], 0)"
    by (simp add: semantic_selectors_def css_def blank_doc_def)
  have dt: "div_tier ?uj ''http://example.com/'' (take 10 (css blank_doc ''body > div'')) ([], 0) = Inr ([], 0)"
    by (simp add: css_def blank_doc_def)
  obtain s0 where s0: "parse_section ?uj ?b 0 ''section'' ''http://example.com/'' = Inr s0"
    by (simp add: parse_section_def css_def Let_def)
  from gen[OF b st dt s0] have "\<exists>s'. extract_sections ?uj blank_doc ''http://example.com/'' = Inr [s']
           \<and> content_text (content s') = []" by auto
  with gen show ?thesis by blast
qed

theorem body_fallback_witness:
  "(case extract_sections (py_urljoin lenient_urllib) blank_doc ''http://example.com/'' of
      Inr [s] \<Rightarrow> content_text (content s) = [] \<and> section_type s = ''section''
    | _ \<Rightarrow> False)"
proof -
  let ?uj = "py_urljoin lenient_urllib"
  let ?b = "Node ''<body></body>'' [] [] []"
  have b: "css_first blank_doc ''body'' = Some ?b"
    by (simp add: css_first_def css_def blank_doc_def)
  have st: "semantic_tier ?uj blank_doc ''http://example.com/'' semantic_selectors ([], 0) = Inr ([], 0)"
    by (simp add: semantic_selectors_def css_def blank_doc_def)
  have dt: "div_tier ?uj ''http://example.com/'' (take 10 (css blank_doc ''body > div'')) ([], 0) = Inr ([], 0)"
    by (simp add: css_def blank_doc_def)
  obtain s0 where s0: "parse_section ?uj ?b 0 ''section'' ''http://example.com/'' = Inr s0"
    and ty: "section_type s0 = determine_section_type ''section'' [] []"
    by (simp add: parse_section_def css_def Let_def)
  have "determine_section_type ''section'' [] [] = ''section''" by code_simp
  with ty have ty': "section_type s0 = ''section''" by simp
  from body_fallback[of blank_doc ?b ?uj "''http://example.com/''" 0 0 s0] b st dt s0
  have "extract_sections ?uj blank_doc ''http://example.com/'' = Inr [s0]"
    "content_text (content s0) = text_strip ?b" by blast+
  with ty' show ?thesis by simp
qed

subsection \<open>Sections of the result\<close>

lemma scrape_body_sections:
  assumes sb: "scrape_body W eng = (eng', Inr r)"
  shows "sections r \<noteq> []"
proof -
  have tail: "\<And>eng3 parser.
     (case extract_meta parser of
        Inl e \<Rightarrow> (eng3, Inl e)
      | Inr m \<Rightarrow>
          (case extract_sections (urljoin W) parser (eng_url eng3) of
             Inl e \<Rightarrow> (eng3, Inl e)
           | Inr secs \<Rightarrow>
               (eng3, Inr \<lparr>url = eng_url eng3, scrapedAt = now W, meta = m, sections = secs,
                           interactions = interactions_of eng3, errors = eng_errors eng3\<rparr>)))
       = (eng', Inr r) \<Longrightarrow> sections r \<noteq> []"
  proof -
    fix eng3 parser
    assume a: "(case extract_meta parser of
        Inl e \<Rightarrow> (eng3, Inl e)
      | Inr m \<Rightarrow>
          (case extract_sections (urljoin W) parser (eng_url eng3) of
             Inl e \<Rightarrow> (eng3, Inl e)
           | Inr secs \<Rightarrow>
               (eng3, Inr \<lparr>url = eng_url eng3, scrapedAt = now W, meta = m, sections = secs,
                           interactions = interactions_of eng3, errors = eng_errors eng3\<rparr>)))
       = (eng', Inr r)"
    show "sections r \<noteq> []"
    proof (cases "extract_meta parser")
      case (Inl e)
      with a show ?thesis by simp
    next
      case m: (Inr m)
      show ?thesis
      proof (cases "extract_sections (urljoin W) parser (eng_url eng3)")
        case (Inl e)
        with a m show ?thesis by simp
      next
        case (Inr secs)
        with a m extract_sections_nonempty[OF Inr] show ?thesis by auto
      qed
    qed
  qed
  show ?thesis
  proof (cases "http_get W (eng_url eng)")
    case (Inl e)
    with sb show ?thesis by (simp add: scrape_body_def fetch_static_def)
  next
    case h: (Inr h)
    show ?thesis
    proof (cases "needs_js_rendering (HTMLParser W h)")
      case False
      with sb h have "(case extract_meta (HTMLParser W h) of
        Inl e \<Rightarrow> (eng, Inl e)
      | Inr m \<Rightarrow>
          (case extract_sections (urljoin W) (HTMLParser W h) (eng_url eng) of
             Inl e \<Rightarrow> (eng, Inl e)
           | Inr secs \<Rightarrow>
               (eng, Inr \<lparr>url = eng_url eng, scrapedAt = now W, meta = m, sections = secs,
                           interactions = interactions_of eng, errors = eng_errors eng\<rparr>)))
       = (eng', Inr r)"
        by (simp add: scrape_body_def fetch_static_def)
      from tail[OF this] show ?thesis .
    next
      case True
      let ?eng1 = "add_error ''Static content insufficient, using JS rendering''
                                ''detection'' (eng\<lparr>strategy := ''js''\<rparr>)"
      obtain eng2 r2 where f: "fetch_with_playwright W ?eng1 = (eng2, r2)"
        by (cases "fetch_with_playwright W ?eng1")
      show ?thesis
      proof (cases r2)
        case (Inl e)
        with sb h True f show ?thesis by (simp add: scrape_body_def fetch_static_def)
      next
        case (Inr rendered)
        with sb h True f have "(case extract_meta (HTMLParser W rendered) of
          Inl e \<Rightarrow> (eng2, Inl e)
        | Inr m \<Rightarrow>
            (case extract_sections (urljoin W) (HTMLParser W rendered) (eng_url eng2) of
               Inl e \<Rightarrow> (eng2, Inl e)
             | Inr secs \<Rightarrow>
                 (eng2, Inr \<lparr>url = eng_url eng2, scrapedAt = now W, meta = m, sections = secs,
                             interactions = interactions_of eng2, errors = eng_errors eng2\<rparr>)))
         = (eng', Inr r)"
          by (simp add: scrape_body_def fetch_static_def)
        from tail[OF this] show ?thesis .
      qed
    qed
  qed
qed

text \<open>
  Claim C1, as stated: for every input the result of \<open>scrape\<close> has a non-empty list of
  sections. It fails when the static fetch raises: the handler of \<open>scrape\<close> returns a
  partial result whose sections are the empty list.
\<close>

theorem scrape_sections_counterexample:
  "sections (snd (scrape (example_world example_get_fails short_doc)
                    (init ''http://example.com/''))) = []"
  by (simp add: scrape_def scrape_body_def fetch_static_def example_world_def
        example_get_fails_def init_def add_error_def Let_def)

text \<open>
  Claim C1, amended. When the body of \<open>scrape\<close> ends without an exception, its result is
  returned and has a non-empty list of sections; when an exception reaches the handler,
  the sections of the result are the empty list. \<open>_extract_sections\<close> never returns an empty
  list: if the document has no body and the first two tiers find nothing, it returns the
  single placeholder section, of type \<open>unknown\<close>.
\<close>

theorem scrape_sections:
  "(case scrape_body W eng of
      (eng1, Inr r) \<Rightarrow> snd (scrape W eng) = r \<and> sections r \<noteq> []
    | (eng1, Inl e) \<Rightarrow> sections (snd (scrape W eng)) = [])
   \<and> (extract_sections uj parser su = Inr secs \<longrightarrow> secs \<noteq> [])
   \<and> (css_first parser ''body'' = None \<longrightarrow>
       semantic_tier uj parser su semantic_selectors ([], 0) = Inr ([], n) \<longrightarrow>
       div_tier uj su (take 10 (css parser ''body > div'')) ([], n) = Inr ([], m) \<longrightarrow>
         extract_sections uj parser su = Inr [create_empty_section su]
         \<and> section_type (create_empty_section su) = ''unknown'')"
proof -
  obtain eng1 res where b: "scrape_body W eng = (eng1, res)" by (cases "scrape_body W eng")
  have 1: "(case scrape_body W eng of
      (eng1, Inr r) \<Rightarrow> snd (scrape W eng) = r \<and> sections r \<noteq> []
    | (eng1, Inl e) \<Rightarrow> sections (snd (scrape W eng)) = [])"
  proof (cases res)
    case (Inl e)
    with b show ?thesis by (simp add: scrape_def Let_def)
  next
    case (Inr r)
    with b scrape_body_sections[of W eng eng1 r] show ?thesis by (simp add: scrape_def)
  qed
  have 2: "extract_sections uj parser su = Inr secs \<longrightarrow> secs \<noteq> []"
    using extract_sections_nonempty by blast
  have 3: "css_first parser ''body'' = None \<longrightarrow>
       semantic_tier uj parser su semantic_selectors ([], 0) = Inr ([], n) \<longrightarrow>
       div_tier uj su (take 10 (css parser ''body > div'')) ([], n) = Inr ([], m) \<longrightarrow>
         extract_sections uj parser su = Inr [create_empty_section su]
         \<and> section_type (create_empty_section su) = ''unknown''"
    by (simp add: extract_sections_def body_tier_def create_empty_section_def)
  from 1 2 3 show ?thesis by blast
qed

theorem scrape_sections_witness:
  "extract_sections (py_urljoin lenient_urllib) empty_doc ''http://example.com/''
     = Inr [create_empty_section ''http://example.com/'']
   \<and> section_type (create_empty_section ''http://example.com/'') = ''unknown''"
proof -
  let ?uj = "py_urljoin lenient_urllib"
  have b: "css_first empty_doc ''body'' = None"
    by (simp add: css_first_def css_def empty_doc_def)
  have st: "semantic_tier ?uj empty_doc ''http://example.com/'' semantic_selectors ([], 0) = Inr ([], 0)"
    by (simp add: semantic_selectors_def css_def empty_doc_def)
  have dt: "div_tier ?uj ''http://example.com/'' (take 10 (css empty_doc ''body > div'')) ([], 0) = Inr ([], 0)"
    by (simp add: css_def empty_doc_def)
  from scrape_sections[of "example_world example_get_fails short_doc" "init ''http://example.com/''"
      ?uj empty_doc "''http://example.com/''" "[]" 0 0] b st dt
  show ?thesis by blast
qed

subsection \<open>Links and images\<close>

lemma collect_links_spec:
  "collect_links uj su as = Inr ls \<Longrightarrow>
   map (\<lambda>l. (link_text l, Inr (href l))) ls
     = List.map_filter (\<lambda>a. case anchor_href a of None \<Rightarrow> None
                              | Some h \<Rightarrow> Some (text_strip a, uj su h)) as"
  by (induction as arbitrary: ls)
     (auto simp: List.map_filter_simps anchor_href_def Let_def split: option.splits sum.splits)

lemma collect_images_spec:
  "collect_images uj su imgs = Inr is \<Longrightarrow>
   map (\<lambda>i. (Some (alt i), Inr (src i))) is
     = List.map_filter (\<lambda>img. case image_src img of None \<Rightarrow> None
                              | Some h \<Rightarrow> Some (attr_get img ''alt'' [], uj su h)) imgs"
  by (induction imgs arbitrary: "is")
     (auto simp: List.map_filter_simps image_src_def str_field_def Let_def
           split: option.splits sum.splits)

text \<open>
  Claim C4, as stated: every emitted \<open>href\<close> or \<open>src\<close> is a well-formed absolute URL, and
  an anchor or image whose URL cannot be resolved to one is dropped. It fails on an anchor
  whose \<open>href\<close> is \<open>javascript:void 0\<close>: \<open>urljoin\<close> returns a reference with another scheme
  as it is, and the link is emitted with that value.
\<close>

theorem links_images_counterexample:
  "parse_section (py_urljoin lenient_urllib) js_link_node 0 ''section'' ''http://example.com/''
     = Inr \<lparr>section_id = ''section-0'', section_type = ''section'', label = ''Menu'',
             sourceUrl = ''http://example.com/'',
             content = \<lparr>headings = [], content_text = ''Menu'',
                         links = [\<lparr>link_text = ''Menu'', href = ''javascript:void 0''\<rparr>],
                         images = [], lists = [], tables = []\<rparr>,
             rawHtml = html js_link_node, truncated = False\<rparr>
   \<and> \<not> wellformed_absolute_url ''javascript:void 0''"
  by code_simp

text \<open>
  Claim C4, amended. In every section that \<open>_parse_section\<close> produces, every anchor with a
  non-empty \<open>href\<close> gives, in document order, one link whose \<open>href\<close> is what
  \<open>urljoin(sourceUrl, href)\<close> returns, and every image with a non-empty \<open>src\<close>, or else
  \<open>data-src\<close>, one image whose \<open>src\<close> is what \<open>urljoin\<close> returns for it; only the anchors
  and images without such an attribute are left out, and the value of \<open>urljoin\<close> is
  emitted without any check.
\<close>

theorem links_images_resolved:
  assumes "parse_section uj elem sid tag_name su = Inr s"
  shows "map (\<lambda>l. (link_text l, Inr (href l))) (links (content s))
           = List.map_filter (\<lambda>a. case anchor_href a of None \<Rightarrow> None
                                    | Some h \<Rightarrow> Some (text_strip a, uj su h)) (css elem ''a'')
       \<and> map (\<lambda>i. (Some (alt i), Inr (src i))) (images (content s))
           = List.map_filter (\<lambda>img. case image_src img of None \<Rightarrow> None
                                    | Some h \<Rightarrow> Some (attr_get img ''alt'' [], uj su h))
               (css elem ''img'')"
proof -
  from assms obtain ls "is" where c: "collect_links uj su (css elem ''a'') = Inr ls"
    "collect_images uj su (css elem ''img'') = Inr is"
    "links (content s) = ls" "images (content s) = is"
    by (auto simp: parse_section_def Let_def split: sum.splits)
  from collect_links_spec[OF c(1)] collect_images_spec[OF c(2)] c(3,4) show ?thesis by simp
qed

theorem links_images_resolved_witness:
  "(case parse_section (py_urljoin lenient_urllib) rel_link_node 0 ''section''
           ''http://example.com/a/b.html'' of
      Inl e \<Rightarrow> False
    | Inr s \<Rightarrow>
        map (\<lambda>l. (link_text l, (Inr (href l) :: exn + string))) (links (content s))
          = [(''Up'', Inr ''http://example.com/c'')]
      \<and> map (\<lambda>i. (Some (alt i), (Inr (src i) :: exn + string))) (images (content s))
          = [(Some ''I'', Inr ''http://example.com/a/i.png'')])"
proof -
  let ?uj = "py_urljoin lenient_urllib"
  let ?u = "''http://example.com/a/b.html''"
  have "(case parse_section ?uj rel_link_node 0 ''section'' ?u of Inl e \<Rightarrow> False | Inr s \<Rightarrow> True)"
    by code_simp
  then obtain s where s: "parse_section ?uj rel_link_node 0 ''section'' ?u = Inr s"
    by (cases "parse_section ?uj rel_link_node 0 ''section'' ?u") auto
  have l: "List.map_filter (\<lambda>a. case anchor_href a of None \<Rightarrow> None
                                    | Some h \<Rightarrow> Some (text_strip a, ?uj ?u h)) (css rel_link_node ''a'')
         = [(''Up'', Inr ''http://example.com/c'')]"
    by code_simp
  have i: "List.map_filter (\<lambda>img. case image_src img of None \<Rightarrow> None
                                    | Some h \<Rightarrow> Some (attr_get img ''alt'' [], ?uj ?u h))
               (css rel_link_node ''img'')
         = [(Some ''I'', Inr ''http://example.com/a/i.png'')]"
    by code_simp
  have r: "map (\<lambda>l. (link_text l, (Inr (href l) :: exn + string))) (links (content s))
          = [(''Up'', Inr ''http://example.com/c'')]
      \<and> map (\<lambda>i. (Some (alt i), (Inr (src i) :: exn + string))) (images (content s))
          = [(Some ''I'', Inr ''http://example.com/a/i.png'')]"
    using links_images_resolved[OF s] unfolding l i .
  show ?thesis unfolding s sum.case by (rule r)
qed

subsection \<open>Section identifiers\<close>

lemma digit_char_inj: "a < 10 \<Longrightarrow> b < 10 \<Longrightarrow> digit_char a = digit_char b \<Longrightarrow> a = b"
proof -
  assume a: "a < 10" "b < 10" "digit_char a = digit_char b"
  then have "(of_char (digit_char a) :: nat) = of_char (digit_char b)" by simp
  with a(1,2) show ?thesis by (simp add: digit_char_def)
qed

lemma digit_char_not_dash: "d < 10 \<Longrightarrow> digit_char d \<noteq> CHR ''-''"
proof
  assume a: "d < 10" "digit_char d = CHR ''-''"
  then have "(of_char (digit_char d) :: nat) = of_char CHR ''-''" by simp
  with a(1) show False by (simp add: digit_char_def)
qed

lemma str_nat_nonempty: "str_nat n \<noteq> []"
  by (subst str_nat.simps) simp

lemma str_nat_no_dash: "CHR ''-'' \<notin> set (str_nat n)"
proof (induction n rule: str_nat.induct)
  case (1 n)
  show ?case
  proof (cases "n < 10")
    case True
    then show ?thesis using digit_char_not_dash[of n] by (subst str_nat.simps) auto
  next
    case False
    then show ?thesis using 1 digit_char_not_dash[of "n mod 10"]
      by (subst str_nat.simps) auto
  qed
qed

lemma str_nat_inj: "str_nat n = str_nat m \<Longrightarrow> n = m"
proof (induction n arbitrary: m rule: str_nat.induct)
  case (1 n)
  show ?case
  proof (cases "n < 10")
    case n: True
    show ?thesis
    proof (cases "m < 10")
      case True
      with n 1(2) show ?thesis
        using digit_char_inj[of n m] by (simp add: str_nat.simps[of n] str_nat.simps[of m])
    next
      case False
      with n 1(2) str_nat_nonempty[of "m div 10"] show ?thesis
        by (simp add: str_nat.simps[of n] str_nat.simps[of m])
    qed
  next
    case n: False
    show ?thesis
    proof (cases "m < 10")
      case True
      with n 1(2) str_nat_nonempty[of "n div 10"] show ?thesis
        by (simp add: str_nat.simps[of n] str_nat.simps[of m])
    next
      case False
      with n 1(2) have e: "str_nat (n div 10) = str_nat (m div 10)"
        "digit_char (n mod 10) = digit_char (m mod 10)"
        by (simp_all add: str_nat.simps[of n] str_nat.simps[of m])
      from 1(1)[OF n e(1)] have "n div 10 = m div 10" .
      moreover from e(2) have "n mod 10 = m mod 10" using digit_char_inj[of "n mod 10" "m mod 10"] by simp
      ultimately show ?thesis by (metis div_mult_mod_eq)
    qed
  qed
qed

lemma dash_suffix_eq:
  assumes "CHR ''-'' \<notin> set a" "CHR ''-'' \<notin> set b" "x @ CHR ''-'' # a = y @ CHR ''-'' # b"
  shows "a = b"
proof -
  from assms(3) have "rev a @ CHR ''-'' # rev x = rev b @ CHR ''-'' # rev y"
    by (metis rev.simps(2) rev_append append_assoc append_Cons append_Nil)
  then have "takeWhile (\<lambda>c. c \<noteq> CHR ''-'') (rev a @ CHR ''-'' # rev x)
           = takeWhile (\<lambda>c. c \<noteq> CHR ''-'') (rev b @ CHR ''-'' # rev y)" by simp
  moreover have "takeWhile (\<lambda>c. c \<noteq> CHR ''-'') (rev a @ CHR ''-'' # rev x) = rev a"
    using assms(1) by (auto simp: takeWhile_tail takeWhile_eq_all_conv)
  moreover have "takeWhile (\<lambda>c. c \<noteq> CHR ''-'') (rev b @ CHR ''-'' # rev y) = rev b"
    using assms(2) by (auto simp: takeWhile_tail takeWhile_eq_all_conv)
  ultimately show ?thesis by simp
qed

lemma indexed_id_inj:
  "t @ ''-'' @ str_nat i = t' @ ''-'' @ str_nat j \<Longrightarrow> i = j"
  using dash_suffix_eq[of "str_nat i" "str_nat j" t t'] str_nat_no_dash str_nat_inj by simp

lemma ids_indexed_nth:
  "ids_indexed secs \<Longrightarrow> i < length secs \<Longrightarrow>
   section_id (secs ! i) = section_type (secs ! i) @ ''-'' @ str_nat i"
proof -
  assume a: "ids_indexed secs" "i < length secs"
  then have "map section_id secs ! i
     = map (\<lambda>(i, s). section_type s @ ''-'' @ str_nat i) (enumerate 0 secs) ! i"
    by (simp add: ids_indexed_def)
  with a(2) show ?thesis by (simp add: nth_enumerate_eq)
qed

lemma ids_indexed_distinct: "ids_indexed secs \<Longrightarrow> distinct (map section_id secs)"
proof -
  assume a: "ids_indexed secs"
  show ?thesis
    unfolding distinct_conv_nth
  proof (intro allI impI)
    fix i j
    assume h: "i < length (map section_id secs)" "j < length (map section_id secs)" "i \<noteq> j"
    show "map section_id secs ! i \<noteq> map section_id secs ! j"
    proof
      assume "map section_id secs ! i = map section_id secs ! j"
      with h ids_indexed_nth[OF a, of i] ids_indexed_nth[OF a, of j]
      have "section_type (secs ! i) @ ''-'' @ str_nat i = section_type (secs ! j) @ ''-'' @ str_nat j"
        by simp
      from indexed_id_inj[OF this] h(3) show False by simp
    qed
  qed
qed

lemma ids_indexed_snoc:
  "ids_indexed secs \<Longrightarrow> section_id s = section_type s @ ''-'' @ str_nat (length secs) \<Longrightarrow>
   ids_indexed (secs @ [s])"
  by (simp add: ids_indexed_def enumerate_append_eq)


lemma parse_section_fields:
  "parse_section uj e i tag_name su = Inr s \<Longrightarrow>
     section_id s = section_type s @ ''-'' @ str_nat i
   \<and> content_text (content s) = text_strip e
   \<and> section_type s = determine_section_type tag_name (headings (content s)) (text_strip e)"
  by (auto simp: parse_section_def Let_def split: sum.splits)

lemma parse_section_index:
  "parse_section uj e i tag_name su = Inr s \<Longrightarrow>
   parse_section uj e j tag_name su = Inr (s\<lparr>section_id := section_type s @ ''-'' @ str_nat j\<rparr>)"
  by (auto simp: parse_section_def Let_def split: sum.splits)

lemma semantic_elements_ids:
  "semantic_elements uj su sel es (secs, sid) = Inr (secs', sid') \<Longrightarrow>
   sid = length secs \<Longrightarrow> ids_indexed secs \<Longrightarrow>
   sid' = length secs' \<and> ids_indexed secs'"
proof (induction es arbitrary: secs sid)
  case Nil
  then show ?case by auto
next
  case (Cons e es)
  from Cons.prems(1) obtain s where s: "parse_section uj e sid sel su = Inr s"
    by (auto split: sum.splits)
  show ?case
  proof (cases "strip (content_text (content s)) \<noteq> []")
    case True
    with Cons.prems(1) s have r: "semantic_elements uj su sel es (secs @ [s], sid + 1) = Inr (secs', sid')"
      by simp
    have "ids_indexed (secs @ [s])"
      using ids_indexed_snoc[OF Cons.prems(3)] parse_section_fields[OF s] Cons.prems(2) by simp
    with Cons.IH[OF r] Cons.prems(2) show ?thesis by simp
  next
    case False
    with Cons.prems(1) s have r: "semantic_elements uj su sel es (secs, sid) = Inr (secs', sid')"
      by simp
    from Cons.IH[OF r Cons.prems(2,3)] show ?thesis .
  qed
qed

lemma semantic_tier_ids:
  "semantic_tier uj parser su sels (secs, sid) = Inr (secs', sid') \<Longrightarrow>
   sid = length secs \<Longrightarrow> ids_indexed secs \<Longrightarrow>
   sid' = length secs' \<and> ids_indexed secs'"
proof (induction sels arbitrary: secs sid)
  case Nil
  then show ?case by auto
next
  case (Cons sel sels)
  from Cons.prems(1) obtain secs1 sid1 where
    e: "semantic_elements uj su sel (css parser sel) (secs, sid) = Inr (secs1, sid1)"
    and r: "semantic_tier uj parser su sels (secs1, sid1) = Inr (secs', sid')"
    by (auto split: sum.splits)
  from semantic_elements_ids[OF e Cons.prems(2,3)] Cons.IH[OF r] show ?case by simp
qed

lemma div_tier_ids:
  "div_tier uj su es (secs, sid) = Inr (secs', sid') \<Longrightarrow>
   sid = length secs \<Longrightarrow> ids_indexed secs \<Longrightarrow>
   sid' = length secs' \<and> ids_indexed secs'"
proof (induction es arbitrary: secs sid)
  case Nil
  then show ?case by auto
next
  case (Cons e es)
  from Cons.prems(1) obtain s where s: "parse_section uj e sid ''section'' su = Inr s"
    by (auto split: sum.splits)
  show ?case
  proof (cases "length (content_text (content s)) > 50")
    case True
    with Cons.prems(1) s have r: "div_tier uj su es (secs @ [s], sid + 1) = Inr (secs', sid')"
      by simp
    have "ids_indexed (secs @ [s])"
      using ids_indexed_snoc[OF Cons.prems(3)] parse_section_fields[OF s] Cons.prems(2) by simp
    with Cons.IH[OF r] Cons.prems(2) show ?thesis by simp
  next
    case False
    with Cons.prems(1) s have r: "div_tier uj su es (secs, sid) = Inr (secs', sid')"
      by simp
    from Cons.IH[OF r Cons.prems(2,3)] show ?thesis .
  qed
qed

lemma extract_sections_ids:
  assumes "extract_sections uj parser su = Inr secs"
  shows "secs = [create_empty_section su] \<or> ids_indexed secs"
proof -
  have e0: "ids_indexed []" by (simp add: ids_indexed_def)
  from assms obtain secs1 sid1 where
    t1: "semantic_tier uj parser su semantic_selectors ([], 0) = Inr (secs1, sid1)"
    by (auto simp: extract_sections_def split: sum.splits)
  from semantic_tier_ids[OF t1] e0 have i1: "sid1 = length secs1" "ids_indexed secs1" by simp_all
  show ?thesis
  proof (cases "secs1 = []")
    case False
    with assms t1 have "secs = secs1" by (simp add: extract_sections_def)
    with i1 show ?thesis by simp
  next
    case True
    with assms t1 obtain secs2 sid2 where
      t2: "div_tier uj su (take 10 (css parser ''body > div'')) (secs1, sid1) = Inr (secs2, sid2)"
      by (auto simp: extract_sections_def split: sum.splits)
    from div_tier_ids[OF t2 i1] have i2: "ids_indexed secs2" by simp
    show ?thesis
    proof (cases "secs2 = []")
      case False
      with assms t1 t2 True have "secs = secs2" by (simp add: extract_sections_def)
      with i2 show ?thesis by simp
    next
      case s2: True
      show ?thesis
      proof (cases "css_first parser ''body''")
        case None
        with assms t1 t2 True s2 show ?thesis by (simp add: extract_sections_def body_tier_def)
      next
        case (Some body)
        with assms t1 t2 True s2 obtain s where
          s: "parse_section uj body 0 ''section'' su = Inr s" "secs = [s]"
          by (auto simp: extract_sections_def body_tier_def split: sum.splits)
        from ids_indexed_snoc[OF e0, of s] parse_section_fields[OF s(1)] s(2) show ?thesis by simp
      qed
    qed
  qed
qed

lemma extract_sections_distinct:
  assumes "extract_sections uj parser su = Inr secs"
  shows "distinct (map section_id secs)"
  using extract_sections_ids[OF assms] ids_indexed_distinct by auto


lemma str_nat_0_1: "str_nat 0 = ''0''" "str_nat (Suc 0) = ''1''"
  by code_simp+

lemma no_keyword_section:
  "\<not> has_keyword t \<Longrightarrow> determine_section_type ''section'' hs t = ''section''"
  by (simp add: has_keyword_def classification_keywords_def determine_section_type_def)

lemma three_sections_scenario:
  assumes c: "css parser ''section'' = [e1, e2, e3]"
    and o: "list_all (\<lambda>sel. css parser sel = [])
              [''header'', ''nav'', ''main'', ''article'', ''aside'', ''footer'']"
    and a1: "parse_section uj e1 0 ''section'' su = Inr a1"
    and a2: "parse_section uj e2 0 ''section'' su = Inr a2"
    and a3: "parse_section uj e3 0 ''section'' su = Inr a3"
    and one: "length (filter (\<lambda>e. strip (text_strip e) = []) [e1, e2, e3]) = 1"
  shows "\<exists>s0 s1. extract_sections uj parser su = Inr [s0, s1]
        \<and> section_id s0 = section_type s0 @ ''-0'' \<and> section_id s1 = section_type s1 @ ''-1''
        \<and> [content_text (content s0), content_text (content s1)]
            = filter (\<lambda>t. strip t \<noteq> []) (map text_strip [e1, e2, e3])
        \<and> (\<not> has_keyword (content_text (content s0)) \<longrightarrow> section_id s0 = ''section-0'')
        \<and> (\<not> has_keyword (content_text (content s1)) \<longrightarrow> section_id s1 = ''section-1'')"
proof -
  note p1 = parse_section_index[OF a1] and p2 = parse_section_index[OF a2]
    and p3 = parse_section_index[OF a3]
  note f1 = parse_section_fields[OF a1] and f2 = parse_section_fields[OF a2]
    and f3 = parse_section_fields[OF a3]
  have tier: "semantic_tier uj parser su semantic_selectors ([], 0)
      = semantic_elements uj su ''section'' [e1, e2, e3] ([], 0)"
    using c o by (simp add: semantic_selectors_def split: sum.splits)
  have kw: "\<And>a e. section_type a = determine_section_type ''section'' (headings (content a)) (text_strip e)
      \<Longrightarrow> \<not> has_keyword (text_strip e) \<Longrightarrow> section_type a = ''section''"
    using no_keyword_section by simp
  from one consider
      (c1) "strip (text_strip e1) = []" "strip (text_strip e2) \<noteq> []" "strip (text_strip e3) \<noteq> []"
    | (c2) "strip (text_strip e1) \<noteq> []" "strip (text_strip e2) = []" "strip (text_strip e3) \<noteq> []"
    | (c3) "strip (text_strip e1) \<noteq> []" "strip (text_strip e2) \<noteq> []" "strip (text_strip e3) = []"
    by (auto split: if_splits)
  then show ?thesis
  proof cases
    case c1
    let ?s0 = "a2\<lparr>section_id := section_type a2 @ ''-'' @ str_nat 0\<rparr>"
    let ?s1 = "a3\<lparr>section_id := section_type a3 @ ''-'' @ str_nat (Suc 0)\<rparr>"
    have "semantic_elements uj su ''section'' [e1, e2, e3] ([], 0) = Inr ([?s0, ?s1], 2)"
      using c1 f1 f2 f3 by (simp add: p1 p2 p3)
    with tier have "extract_sections uj parser su = Inr [?s0, ?s1]"
      by (simp add: extract_sections_def)
    then show ?thesis
      using c1 f2 f3 kw[of a2 e2] kw[of a3 e3]
      by (intro exI[of _ ?s0] exI[of _ ?s1]) (simp add: str_nat_0_1)
  next
    case c2
    let ?s0 = "a1\<lparr>section_id := section_type a1 @ ''-'' @ str_nat 0\<rparr>"
    let ?s1 = "a3\<lparr>section_id := section_type a3 @ ''-'' @ str_nat (Suc 0)\<rparr>"
    have "semantic_elements uj su ''section'' [e1, e2, e3] ([], 0) = Inr ([?s0, ?s1], 2)"
      using c2 f1 f2 f3 by (simp add: p1 p2 p3)
    with tier have "extract_sections uj parser su = Inr [?s0, ?s1]"
      by (simp add: extract_sections_def)
    then show ?thesis
      using c2 f1 f3 kw[of a1 e1] kw[of a3 e3]
      by (intro exI[of _ ?s0] exI[of _ ?s1]) (simp add: str_nat_0_1)
  next
    case c3
    let ?s0 = "a1\<lparr>section_id := section_type a1 @ ''-'' @ str_nat 0\<rparr>"
    let ?s1 = "a2\<lparr>section_id := section_type a2 @ ''-'' @ str_nat (Suc 0)\<rparr>"
    have "semantic_elements uj su ''section'' [e1, e2, e3] ([], 0) = Inr ([?s0, ?s1], 2)"
      using c3 f1 f2 f3 by (simp add: p1 p2 p3)
    with tier have "extract_sections uj parser su = Inr [?s0, ?s1]"
      by (simp add: extract_sections_def)
    then show ?thesis
      using c3 f1 f2 kw[of a1 e1] kw[of a2 e2]
      by (intro exI[of _ ?s0] exI[of _ ?s1]) (simp add: str_nat_0_1)
  qed
qed

text \<open>
  Claim C7, as stated: three \<open>section\<close> elements of which one has no text give two
  sections with the identifiers \<open>section-0\<close> and \<open>section-1\<close>. It fails when the text of a
  kept element holds a classification keyword: the identifier starts with the type of
  the section, here \<open>pricing\<close>.
\<close>

theorem three_sections_counterexample:
  "map_sum id (map section_id)
     (extract_sections (py_urljoin lenient_urllib)
        (three_sections_doc ''Pricing plans'' [] ''About us'') ''http://example.com/'')
     = Inr [''pricing-0'', ''section-1'']
   \<and> map_sum id (map section_id)
     (extract_sections (py_urljoin lenient_urllib)
        (three_sections_doc ''Pricing plans'' [] ''About us'') ''http://example.com/'')
     \<noteq> Inr [''section-0'', ''section-1'']"
  by code_simp

text \<open>
  Claim C7, amended. When the semantic tier considers three \<open>section\<close> elements only, each
  of them parses, and exactly one has an empty stripped text, the extraction yields exactly
  the two others, in order, with the identifiers \<open><type>-0\<close> and \<open><type>-1\<close>: these are
  \<open>section-0\<close> and \<open>section-1\<close> for texts without a classification keyword. In every
  result the identifiers are pairwise distinct, and the result is either the placeholder
  alone or numbered 0, 1, 2, ... by position, whichever tier produced it.
\<close>

theorem three_sections_ids:
  "(css parser ''section'' = [e1, e2, e3] \<longrightarrow>
    list_all (\<lambda>sel. css parser sel = [])
      [''header'', ''nav'', ''main'', ''article'', ''aside'', ''footer''] \<longrightarrow>
    parse_section uj e1 0 ''section'' su = Inr a1 \<longrightarrow>
    parse_section uj e2 0 ''section'' su = Inr a2 \<longrightarrow>
    parse_section uj e3 0 ''section'' su = Inr a3 \<longrightarrow>
    length (filter (\<lambda>e. strip (text_strip e) = []) [e1, e2, e3]) = 1 \<longrightarrow>
      (\<exists>s0 s1. extract_sections uj parser su = Inr [s0, s1]
        \<and> section_id s0 = section_type s0 @ ''-0'' \<and> section_id s1 = section_type s1 @ ''-1''
        \<and> [content_text (content s0), content_text (content s1)]
            = filter (\<lambda>t. strip t \<noteq> []) (map text_strip [e1, e2, e3])
        \<and> (\<not> has_keyword (content_text (content s0)) \<longrightarrow> section_id s0 = ''section-0'')
        \<and> (\<not> has_keyword (content_text (content s1)) \<longrightarrow> section_id s1 = ''section-1'')))
   \<and> (extract_sections uj' parser' su' = Inr secs \<longrightarrow>
        distinct (map section_id secs)
        \<and> (secs = [create_empty_section su'] \<or> ids_indexed secs))"
  using three_sections_scenario[of parser e1 e2 e3 uj su a1 a2 a3]
    extract_sections_distinct[of uj' parser' su' secs]
    extract_sections_ids[of uj' parser' su' secs]
  by blast

theorem three_sections_ids_witness:
  "map_sum id (map section_id)
     (extract_sections (py_urljoin lenient_urllib)
        (three_sections_doc ''Welcome'' [] ''About us'') ''http://example.com/'')
     = Inr [''section-0'', ''section-1'']"
proof -
  let ?uj = "py_urljoin lenient_urllib"
  let ?u = "''http://example.com/''"
  let ?d = "three_sections_doc ''Welcome'' [] ''About us''"
  let ?e1 = "section_node ''Welcome''"
  let ?e2 = "section_node []"
  let ?e3 = "section_node ''About us''"
  have c: "css ?d ''section'' = [?e1, ?e2, ?e3]"
    by (simp add: three_sections_doc_def css_def)
  have o: "list_all (\<lambda>sel. css ?d sel = [])
      [''header'', ''nav'', ''main'', ''article'', ''aside'', ''footer'']"
    by (simp add: three_sections_doc_def css_def)
  have p: "\<And>t. \<exists>a. parse_section ?uj (section_node t) 0 ''section'' ?u = Inr a"
    by (simp add: parse_section_def css_def section_node_def Let_def)
  from p obtain a1 a2 a3 where a:
    "parse_section ?uj ?e1 0 ''section'' ?u = Inr a1"
    "parse_section ?uj ?e2 0 ''section'' ?u = Inr a2"
    "parse_section ?uj ?e3 0 ''section'' ?u = Inr a3" by blast
  have one: "length (filter (\<lambda>e. strip (text_strip e) = []) [?e1, ?e2, ?e3]) = 1"
    by code_simp
  have texts: "filter (\<lambda>t. strip t \<noteq> []) (map text_strip [?e1, ?e2, ?e3]) = [''Welcome'', ''About us'']"
    by code_simp
  have nk: "\<not> has_keyword ''Welcome''" "\<not> has_keyword ''About us''"
    by code_simp+
  from three_sections_ids[of ?d ?e1 ?e2 ?e3 ?uj ?u a1 a2 a3 ?uj ?d ?u "[]"] c o a one
  obtain s0 s1 where r: "extract_sections ?uj ?d ?u = Inr [s0, s1]"
    "[content_text (content s0), content_text (content s1)]
            = filter (\<lambda>t. strip t \<noteq> []) (map text_strip [?e1, ?e2, ?e3])"
    "\<not> has_keyword (content_text (content s0)) \<longrightarrow> section_id s0 = ''section-0''"
    "\<not> has_keyword (content_text (content s1)) \<longrightarrow> section_id s1 = ''section-1''"
    by blast
  from r(2) texts have "content_text (content s0) = ''Welcome''" "content_text (content s1) = ''About us''"
    by simp_all
  with r(3,4) nk have "section_id s0 = ''section-0''" "section_id s1 = ''section-1''" by simp_all
  with r(1) show ?thesis by simp
qed

end
